theory Spec2Isabelle
  imports Main
begin

section \<open>Strings\<close>

text \<open>
  Python strings are modelled as \<^typ>\<open>string\<close>, each \<^typ>\<open>char\<close> being one code point
  from 0 to 255. \<open>isspace\<close> is the set of those code points that \<^verbatim>\<open>str.strip()\<close>
  removes: 9-13, 28-32, 133 (next line) and 160 (no-break space). \<open>lower\<close> is
  \<^verbatim>\<open>str.lower()\<close>, which on these code points maps \<open>A-Z\<close> (65-90) and the capital
  letters 192-222 other than the multiplication sign 215 to the code point 32 above,
  and leaves every other character alone.
\<close>

definition isspace :: "char \<Rightarrow> bool" where
  "isspace c =
     (let n = (of_char c :: nat)
      in (9 \<le> n \<and> n \<le> 13) \<or> (28 \<le> n \<and> n \<le> 32) \<or> n = 133 \<or> n = 160)"

definition lower_char :: "char \<Rightarrow> char" where
  "lower_char c =
     (let n = (of_char c :: nat)
      in if (65 \<le> n \<and> n \<le> 90) \<or> (192 \<le> n \<and> n \<le> 222 \<and> n \<noteq> 215)
         then char_of (n + 32) else c)"

definition lower :: "string \<Rightarrow> string" where
  "lower s = map lower_char s"

definition strip :: "string \<Rightarrow> string" where
  "strip s = rev (dropWhile isspace (rev (dropWhile isspace s)))"

text \<open>
  \<^verbatim>\<open>s.split(',')\<close>: the pieces between commas, in order; the empty string gives one
  empty piece.
\<close>

fun split_comma :: "string \<Rightarrow> string list" where
  "split_comma [] = [[]]"
| "split_comma (c # cs) =
     (if c = CHR '','' then [] # split_comma cs
      else (case split_comma cs of
              [] \<Rightarrow> [[c]]
            | w # ws \<Rightarrow> (c # w) # ws))"

section \<open>Configuration: \<^verbatim>\<open>app/config.py\<close>\<close>

text \<open>
  \<open>environ\<close> is \<^verbatim>\<open>os.environ\<close> as it stands after \<^verbatim>\<open>load_dotenv(override=True)\<close> has
  re-read the \<^verbatim>\<open>.env\<close> file, which \<^verbatim>\<open>get_admin_emails\<close> does on every call.
  \<open>environ_get\<close> is \<^verbatim>\<open>os.environ.get(key, '')\<close>.
\<close>

type_synonym environ = "string \<rightharpoonup> string"

definition environ_get :: "environ \<Rightarrow> string \<Rightarrow> string" where
  "environ_get env key = (case env key of None \<Rightarrow> [] | Some v \<Rightarrow> v)"

text \<open>The loop of \<^verbatim>\<open>get_admin_emails\<close> over the comma-separated pieces.\<close>

fun parse_emails :: "string list \<Rightarrow> string list" where
  "parse_emails [] = []"
| "parse_emails (email # rest) =
     (let email = strip email
      in if email \<noteq> [] then lower email # parse_emails rest else parse_emails rest)"

definition get_admin_emails :: "environ \<Rightarrow> string list" where
  "get_admin_emails env =
     (let admin_emails_str = strip (environ_get env ''ADMIN_EMAILS'')
      in if admin_emails_str = [] then
           (let admin_email = strip (environ_get env ''ADMIN_EMAIL'')
            in if admin_email \<noteq> [] then [lower admin_email] else [])
         else parse_emails (split_comma admin_emails_str))"

text \<open>
  \<^verbatim>\<open>is_admin_email(email)\<close>. An absent email (\<^verbatim>\<open>None\<close>) and the empty string are both
  falsy and take the same branch, so the argument is a plain string.
\<close>

definition is_admin_email :: "environ \<Rightarrow> string \<Rightarrow> bool" where
  "is_admin_email env email =
     (if email = [] then False
      else let email_normalized = lower (strip email)
           in if email_normalized = [] then False
              else let admin_emails = get_admin_emails env
                   in if admin_emails = [] then False
                      else email_normalized \<in> set admin_emails)"

section \<open>The user model: \<^verbatim>\<open>app/models.py\<close>\<close>

text \<open>
  One record serves as the stored document and as the \<^verbatim>\<open>User\<close> object built from it.
  \<open>stored_role\<close> is the document's \<^verbatim>\<open>role\<close> key, the object's \<^verbatim>\<open>_role\<close>; identifiers
  (\<^verbatim>\<open>ObjectId\<close>) are natural numbers; timestamps are integers in milliseconds, the
  resolution of a stored date.
\<close>

record user =
  uid :: nat
  email :: string
  password_hash :: "string option"
  stored_role :: string
  is_verified :: bool
  google_id :: "string option"
  created_at :: int

text \<open>\<^verbatim>\<open>User.__init__\<close>: the email is trimmed and lowercased when the object is built.\<close>

definition User :: "user \<Rightarrow> user" where
  "User user_data = user_data\<lparr>email := lower (strip (email user_data))\<rparr>"

definition role :: "environ \<Rightarrow> user \<Rightarrow> string" where
  "role env self = (if is_admin_email env (email self) then ''admin'' else stored_role self)"

definition get_stored_role :: "user \<Rightarrow> string" where
  "get_stored_role self = stored_role self"

definition is_admin :: "environ \<Rightarrow> user \<Rightarrow> bool" where
  "is_admin env self =
     (if is_admin_email env (email self) then True else stored_role self = ''admin'')"


section \<open>The document store\<close>

text \<open>
  A collection is the list of its documents in insertion order. \<^verbatim>\<open>find_one\<close> returns
  the first document that matches (\<^const>\<open>find\<close>), \<^verbatim>\<open>update_one\<close> changes the first
  document that matches (\<open>update_first\<close>) and \<^verbatim>\<open>insert_one\<close> appends. Every write to
  the store and every attempt to deliver mail is also recorded, in order, in \<open>effects\<close>.
\<close>

record otp =
  otp_email :: string
  otp_code :: string
  otp_created_at :: int
  used :: bool

datatype effect =
    DbInsertUser nat
  | DbUpdateUser nat
  | DbInsertOtp string string
  | DbUpdateOtp string string
  | MailSend string
  | SmtpSend string

record world =
  users :: "user list"
  otps :: "otp list"
  next_id :: nat
  session_pending_email :: "string option"
  session_user_id :: "nat option"
  flashes :: "(string \<times> string) list"
  effects :: "effect list"

fun update_first :: "('a \<Rightarrow> bool) \<Rightarrow> ('a \<Rightarrow> 'a) \<Rightarrow> 'a list \<Rightarrow> 'a list" where
  "update_first P f [] = []"
| "update_first P f (x # xs) = (if P x then f x # xs else x # update_first P f xs)"

definition record_effect :: "effect \<Rightarrow> world \<Rightarrow> world" where
  "record_effect x w = w\<lparr>effects := effects w @ [x]\<rparr>"

text \<open>\<^verbatim>\<open>users.insert_one(user_data)\<close>: the store assigns a fresh \<^verbatim>\<open>_id\<close>.\<close>

definition users_insert_one :: "user \<Rightarrow> world \<Rightarrow> nat \<times> world" where
  "users_insert_one user_data w =
     (next_id w,
      record_effect (DbInsertUser (next_id w))
        (w\<lparr>users := users w @ [user_data\<lparr>uid := next_id w\<rparr>], next_id := Suc (next_id w)\<rparr>))"

text \<open>\<^verbatim>\<open>users.update_one({'_id': ObjectId(i)}, {'$set': ...})\<close>.\<close>

definition users_update_one :: "nat \<Rightarrow> (user \<Rightarrow> user) \<Rightarrow> world \<Rightarrow> world" where
  "users_update_one i f w =
     record_effect (DbUpdateUser i) (w\<lparr>users := update_first (\<lambda>d. uid d = i) f (users w)\<rparr>)"

definition flash :: "string \<Rightarrow> string \<Rightarrow> world \<Rightarrow> world" where
  "flash message category w = w\<lparr>flashes := flashes w @ [(message, category)]\<rparr>"

text \<open>A value is truthy in Python when it is neither \<^verbatim>\<open>None\<close> nor the empty string.\<close>

definition truthy :: "string option \<Rightarrow> bool" where
  "truthy v = (case v of None \<Rightarrow> False | Some s \<Rightarrow> s \<noteq> [])"

text \<open>
  \<^verbatim>\<open>bcrypt\<close> is an external library: \<open>hashpw\<close> stands for
  \<^verbatim>\<open>bcrypt.hashpw(password, bcrypt.gensalt())\<close> and \<open>checkpw\<close> for \<^verbatim>\<open>bcrypt.checkpw\<close>.
\<close>

record bcrypt =
  hashpw :: "string \<Rightarrow> string"
  checkpw :: "string \<Rightarrow> string \<Rightarrow> bool"

text \<open>The class attributes of \<^verbatim>\<open>Config\<close> that the routes read.\<close>

record config =
  OTP_EXPIRY_MINUTES :: int
  MAIL_USERNAME :: "string option"
  MAIL_PASSWORD :: "string option"

subsection \<open>\<^verbatim>\<open>User\<close>: creation, lookup, updates\<close>

definition create ::
  "environ \<Rightarrow> bcrypt \<Rightarrow> int \<Rightarrow> string \<Rightarrow> string option \<Rightarrow> string option \<Rightarrow> string option
     \<Rightarrow> world \<Rightarrow> user \<times> world" where
  "create env lib now e password role_arg gid w =
     (let normalized_email = lower (strip e);
          r = (case role_arg of
                 None \<Rightarrow> if is_admin_email env normalized_email then ''admin'' else ''user''
               | Some given \<Rightarrow> given);
          user_data = \<lparr>uid = 0, email = normalized_email, password_hash = None, stored_role = r,
                       is_verified = False, google_id = gid, created_at = now\<rparr>;
          user_data = (if truthy password
                       then user_data\<lparr>password_hash := Some (hashpw lib (the password))\<rparr>
                       else user_data\<lparr>is_verified := True\<rparr>);
          (inserted_id, w') = users_insert_one user_data w
      in (User (user_data\<lparr>uid := inserted_id\<rparr>), w'))"

definition check_password :: "bcrypt \<Rightarrow> user \<Rightarrow> string \<Rightarrow> bool" where
  "check_password lib self password =
     (if \<not> truthy (password_hash self) then False
      else checkpw lib password (the (password_hash self)))"

definition find_by_email :: "string \<Rightarrow> world \<Rightarrow> user option" where
  "find_by_email e w =
     (let e = lower (strip e)
      in if e = [] then None
         else (case find (\<lambda>d. email d = e) (users w) of
                 Some user_data \<Rightarrow> Some (User user_data)
               | None \<Rightarrow> None))"

definition find_by_id :: "nat \<Rightarrow> world \<Rightarrow> user option" where
  "find_by_id user_id w =
     (case find (\<lambda>d. uid d = user_id) (users w) of
        Some user_data \<Rightarrow> Some (User user_data)
      | None \<Rightarrow> None)"

definition find_by_google_id :: "string option \<Rightarrow> world \<Rightarrow> user option" where
  "find_by_google_id gid w =
     (case find (\<lambda>d. google_id d = gid) (users w) of
        Some user_data \<Rightarrow> Some (User user_data)
      | None \<Rightarrow> None)"

definition verify :: "user \<Rightarrow> world \<Rightarrow> user \<times> world" where
  "verify self w =
     (self\<lparr>is_verified := True\<rparr>,
      users_update_one (uid self) (\<lambda>d. d\<lparr>is_verified := True\<rparr>) w)"

definition update_role :: "user \<Rightarrow> string \<Rightarrow> world \<Rightarrow> user \<times> world" where
  "update_role self r w =
     (self\<lparr>stored_role := r\<rparr>,
      users_update_one (uid self) (\<lambda>d. d\<lparr>stored_role := r\<rparr>) w)"

subsection \<open>\<^verbatim>\<open>OTP\<close>\<close>

definition OTP_create :: "int \<Rightarrow> string \<Rightarrow> string \<Rightarrow> world \<Rightarrow> world" where
  "OTP_create now e code w =
     record_effect (DbInsertOtp e code)
       (w\<lparr>otps := otps w @ [\<lparr>otp_email = e, otp_code = code, otp_created_at = now, used = False\<rparr>]\<rparr>)"

text \<open>\<^verbatim>\<open>timedelta(minutes=m)\<close> in milliseconds.\<close>

definition minutes :: "int \<Rightarrow> int" where
  "minutes m = m * 60000"

definition find_valid :: "config \<Rightarrow> int \<Rightarrow> string \<Rightarrow> string \<Rightarrow> world \<Rightarrow> bool" where
  "find_valid cfg now e code w =
     (let expiry_time = now - minutes (OTP_EXPIRY_MINUTES cfg);
          otp_data = find (\<lambda>d. otp_email d = e \<and> otp_code d = code \<and> used d = False
                                \<and> otp_created_at d \<ge> expiry_time) (otps w)
      in otp_data \<noteq> None)"

definition mark_used :: "string \<Rightarrow> string \<Rightarrow> world \<Rightarrow> world" where
  "mark_used e code w =
     record_effect (DbUpdateOtp e code)
       (w\<lparr>otps := update_first (\<lambda>d. otp_email d = e \<and> otp_code d = code)
                       (\<lambda>d. d\<lparr>used := True\<rparr>) (otps w)\<rparr>)"


section \<open>Authorization gates: \<^verbatim>\<open>app/auth/decorators.py\<close>\<close>

text \<open>
  \<open>actor\<close> is \<^verbatim>\<open>current_user\<close>: the anonymous user or a loaded \<^verbatim>\<open>User\<close>. A gate either
  lets the request through or answers itself; the answer is kept as the code gives it
  (a JSON error with its status for API requests, a flash message and a redirect
  otherwise), tagged with the kind of denial it stands for.
\<close>

datatype actor = Anonymous | Identity user

datatype response =
    Redirect string
  | Render string
  | Json string nat

datatype denial = Unauthenticated | NotVerified | Forbidden

datatype gate =
    Allow
  | Deny denial response "(string \<times> string) option"

record request =
  is_json :: bool
  path :: string

definition is_authenticated :: "actor \<Rightarrow> bool" where
  "is_authenticated a = (case a of Anonymous \<Rightarrow> False | Identity u \<Rightarrow> True)"

definition wants_json :: "request \<Rightarrow> bool" where
  "wants_json req = (is_json req \<or> take 5 (path req) = ''/api/'')"

text \<open>
  \<^verbatim>\<open>flask_login.login_required\<close> with the login manager of \<^verbatim>\<open>app/extensions.py\<close>: an
  actor who is not authenticated is sent to \<^verbatim>\<open>login_view\<close> with \<^verbatim>\<open>login_message\<close>;
  otherwise the wrapped function runs, with the loaded user as \<^verbatim>\<open>current_user\<close>.
\<close>

definition login_required :: "(user \<Rightarrow> gate) \<Rightarrow> actor \<Rightarrow> gate" where
  "login_required f a =
     (case a of
        Anonymous \<Rightarrow>
          Deny Unauthenticated (Redirect ''auth.login'')
            (Some (''Please log in to access this page.'', ''info''))
      | Identity current_user \<Rightarrow> f current_user)"

definition deny_not_verified :: "request \<Rightarrow> gate" where
  "deny_not_verified req =
     (if wants_json req then Deny NotVerified (Json ''Email verification required'' 403) None
      else Deny NotVerified (Redirect ''auth.register'')
             (Some (''Please verify your email before accessing this page.'', ''warning'')))"

definition admin_required :: "environ \<Rightarrow> request \<Rightarrow> actor \<Rightarrow> gate" where
  "admin_required env req =
     login_required (\<lambda>current_user.
       if \<not> is_authenticated (Identity current_user) then
         (if wants_json req then Deny Unauthenticated (Json ''Authentication required'' 401) None
          else Deny Unauthenticated (Redirect ''auth.login'')
                 (Some (''Please log in to access this page.'', ''warning'')))
       else if \<not> is_verified current_user then deny_not_verified req
       else
         (let is_admin = is_admin_email env (email current_user);
              is_admin = (if \<not> is_admin then get_stored_role current_user = ''admin'' else is_admin)
          in if \<not> is_admin then
               (if wants_json req then Deny Forbidden (Json ''Admin access required'' 403) None
                else Deny Forbidden (Redirect ''uploads.gallery'')
                       (Some (''Admin access required.'', ''error'')))
             else Allow))"

definition verified_user_required :: "request \<Rightarrow> actor \<Rightarrow> gate" where
  "verified_user_required req =
     login_required (\<lambda>current_user.
       if \<not> is_verified current_user then deny_not_verified req else Allow)"

definition user_only :: "environ \<Rightarrow> request \<Rightarrow> actor \<Rightarrow> gate" where
  "user_only env req =
     login_required (\<lambda>current_user.
       if \<not> is_verified current_user then deny_not_verified req
       else
         (let is_admin = is_admin_email env (email current_user);
              is_admin = (if \<not> is_admin then get_stored_role current_user = ''admin'' else is_admin)
          in if is_admin then
               (if wants_json req
                then Deny Forbidden
                       (Json ''Admin access not allowed. This feature is for regular users only.'' 403)
                       None
                else Deny Forbidden (Redirect ''admin.dashboard'')
                       (Some (''Admin users cannot access this feature. Please use the admin dashboard.'',
                              ''error'')))
             else Allow))"

section \<open>Routes: \<^verbatim>\<open>app/auth/routes.py\<close>, \<^verbatim>\<open>app/utils.py\<close>\<close>

text \<open>
  \<^verbatim>\<open>current_user\<close> of a request is loaded from the session's user id by \<^verbatim>\<open>load_user\<close>;
  \<^verbatim>\<open>login_user\<close> stores the id, \<^verbatim>\<open>logout_user\<close> removes it.
\<close>

definition current_user_of :: "world \<Rightarrow> actor" where
  "current_user_of w =
     (case session_user_id w of
        None \<Rightarrow> Anonymous
      | Some i \<Rightarrow> (case find_by_id i w of None \<Rightarrow> Anonymous | Some u \<Rightarrow> Identity u))"

definition login_user :: "user \<Rightarrow> world \<Rightarrow> world" where
  "login_user u w = w\<lparr>session_user_id := Some (uid u)\<rparr>"

definition logout_user :: "world \<Rightarrow> world" where
  "logout_user w = w\<lparr>session_user_id := None\<rparr>"

text \<open>
  The role block that \<^verbatim>\<open>login\<close> (lines 152-162), \<^verbatim>\<open>verify_otp\<close> (204-214) and
  \<^verbatim>\<open>google_callback\<close> (258-268) each carry: \<open>checked\<close> is the email given to
  \<^verbatim>\<open>is_admin_email\<close> (\<^verbatim>\<open>user.email\<close>, or \<^verbatim>\<open>pending_email\<close> in \<^verbatim>\<open>verify_otp\<close>). The block
  returns nothing in the source; the outcome records whether \<^verbatim>\<open>update_role\<close> ran.
\<close>

datatype outcome = Changed | Unchanged

definition reconcile :: "environ \<Rightarrow> string \<Rightarrow> user \<Rightarrow> world \<Rightarrow> outcome \<times> user \<times> world" where
  "reconcile env checked u w =
     (let should_be_admin = is_admin_email env checked;
          current_role_is_admin = (get_stored_role u = ''admin'')
      in if should_be_admin \<and> \<not> current_role_is_admin then (Changed, update_role u ''admin'' w)
         else if \<not> should_be_admin \<and> current_role_is_admin then (Changed, update_role u ''user'' w)
         else (Unchanged, u, w))"


subsection \<open>Registration\<close>

text \<open>
  What a registration request brings in from outside: the submitted form, the verdict of
  the library's \<^verbatim>\<open>Email()\<close> validator on the address, the code that \<^verbatim>\<open>generate_otp()\<close>
  draws, and whether \<^verbatim>\<open>mail.send\<close> and the direct SMTP fallback get the message out.
\<close>

record register_request =
  submitted :: bool
  form_email :: string
  email_syntax_ok :: bool
  form_password :: string
  form_password_confirm :: string
  generated_otp :: string
  mail_send_ok :: bool
  smtp_send_ok :: bool

text \<open>\<^verbatim>\<open>DataRequired()\<close>: the field holds something other than whitespace.\<close>

definition DataRequired :: "string \<Rightarrow> bool" where
  "DataRequired field_data = (field_data \<noteq> [] \<and> strip field_data \<noteq> [])"

text \<open>\<^verbatim>\<open>RegisterForm\<close> of \<^verbatim>\<open>app/auth/forms.py\<close>, with its \<^verbatim>\<open>validate_email\<close>.\<close>

definition validate_email :: "string \<Rightarrow> world \<Rightarrow> bool" where
  "validate_email field_data w =
     (let e = lower (strip field_data)
      in case find_by_email e w of
           Some existing_user \<Rightarrow> \<not> is_verified existing_user
         | None \<Rightarrow> True)"

definition RegisterForm_validate :: "register_request \<Rightarrow> world \<Rightarrow> bool" where
  "RegisterForm_validate req w =
     ((DataRequired (form_email req) \<and> email_syntax_ok req \<and> validate_email (form_email req) w)
      \<and> (DataRequired (form_password req) \<and> 6 \<le> length (form_password req))
      \<and> (DataRequired (form_password_confirm req)
           \<and> form_password_confirm req = form_password req))"

definition credentials_configured :: "config \<Rightarrow> bool" where
  "credentials_configured cfg = (truthy (MAIL_USERNAME cfg) \<and> truthy (MAIL_PASSWORD cfg))"

text \<open>\<^verbatim>\<open>send_email_direct_smtp\<close>: every failure is returned, none raised.\<close>

definition send_email_direct_smtp :: "config \<Rightarrow> bool \<Rightarrow> string \<Rightarrow> world \<Rightarrow> bool \<times> world" where
  "send_email_direct_smtp cfg smtp_ok to_email w =
     (if \<not> truthy (MAIL_USERNAME cfg) \<or> \<not> truthy (MAIL_PASSWORD cfg) then (False, w)
      else (smtp_ok, record_effect (SmtpSend to_email) w))"

text \<open>Lines 87-122 of \<^verbatim>\<open>register\<close>: the delivery attempt; every exception ends in
  \<^verbatim>\<open>email_sent = False\<close>.\<close>

definition send_otp_email :: "config \<Rightarrow> register_request \<Rightarrow> string \<Rightarrow> world \<Rightarrow> bool \<times> world" where
  "send_otp_email cfg req e w =
     (if credentials_configured cfg then
        (let w = record_effect (MailSend e) w
         in if mail_send_ok req then (True, w)
            else (let (success, w) = send_email_direct_smtp cfg (smtp_send_ok req) e w
                  in if success then (True, w) else (False, w)))
      else (False, w))"

text \<open>Lines 44-80 of \<^verbatim>\<open>register\<close>, once the verified case is excluded: store the
  credential on the existing document, or create the document.\<close>

definition store_registration ::
  "environ \<Rightarrow> bcrypt \<Rightarrow> int \<Rightarrow> register_request \<Rightarrow> string \<Rightarrow> user option \<Rightarrow> world \<Rightarrow> world" where
  "store_registration env lib now req e existing_user w =
     (case existing_user of
        Some u \<Rightarrow>
          if \<not> is_verified u then
            (let new_hash = hashpw lib (form_password req);
                 r = (if is_admin_email env e then ''admin'' else ''user'')
             in users_update_one (uid u)
                  (\<lambda>d. d\<lparr>password_hash := Some new_hash, stored_role := r\<rparr>) w)
          else snd (create env lib now e (Some (form_password req)) None None w)
      | None \<Rightarrow> snd (create env lib now e (Some (form_password req)) None None w))"

definition register ::
  "environ \<Rightarrow> config \<Rightarrow> bcrypt \<Rightarrow> int \<Rightarrow> register_request \<Rightarrow> world \<Rightarrow> response \<times> world" where
  "register env cfg lib now req w =
     (if is_authenticated (current_user_of w) then (Redirect ''uploads.gallery'', w)
      else if \<not> (submitted req \<and> RegisterForm_validate req w)
      then (Render ''auth/register.html'', w)
      else
        (let e = lower (strip (form_email req));
             existing_user = find_by_email e w
         in if (case existing_user of Some u \<Rightarrow> is_verified u | None \<Rightarrow> False) then
              (Redirect ''auth.login'',
               flash ''Email is already registered and verified. Please login instead.'' ''info'' w)
            else
              (let w = store_registration env lib now req e existing_user w;
                   code = generated_otp req;
                   w = OTP_create now e code w;
                   (email_sent, w) = send_otp_email cfg req e w;
                   w = w\<lparr>session_pending_email := Some e\<rparr>;
                   w = (if email_sent \<and> credentials_configured cfg
                        then flash ''OTP has been sent to your email. Please verify your email.''
                               ''success'' w
                        else flash ''Failed to send OTP email. Please configure email settings or contact administrator.''
                               ''error'' w)
               in (Redirect ''auth.verify_otp'', w))))"

subsection \<open>Login\<close>

record login_request =
  login_submitted :: bool
  login_email :: string
  login_email_syntax_ok :: bool
  login_password :: string
  next_page :: "string option"

definition LoginForm_validate :: "login_request \<Rightarrow> bool" where
  "LoginForm_validate req =
     ((DataRequired (login_email req) \<and> login_email_syntax_ok req)
      \<and> DataRequired (login_password req))"

definition login :: "environ \<Rightarrow> bcrypt \<Rightarrow> login_request \<Rightarrow> world \<Rightarrow> response \<times> world" where
  "login env lib req w =
     (if is_authenticated (current_user_of w) then (Redirect ''uploads.gallery'', w)
      else if \<not> (login_submitted req \<and> LoginForm_validate req)
      then (Render ''auth/login.html'', w)
      else
        (case find_by_email (login_email req) w of
           None \<Rightarrow> (Render ''auth/login.html'', flash ''Invalid email or password.'' ''error'' w)
         | Some u \<Rightarrow>
             if check_password lib u (login_password req) then
               (if \<not> is_verified u then
                  (Redirect ''auth.register'',
                   flash ''Please verify your email before logging in. Please register again to receive a new OTP.''
                     ''warning'' w)
                else
                  (let (changed, u, w) = reconcile env (email u) u w;
                       w = login_user u w
                   in if truthy (next_page req) then (Redirect (the (next_page req)), w)
                      else (Redirect ''uploads.gallery'', w)))
             else (Render ''auth/login.html'', flash ''Invalid email or password.'' ''error'' w)))"

subsection \<open>Verification by one-time code\<close>

record verify_request =
  verify_submitted :: bool
  otp_code_data :: string

definition OTPVerifyForm_validate :: "verify_request \<Rightarrow> bool" where
  "OTPVerifyForm_validate req =
     (DataRequired (otp_code_data req)
      \<and> 6 \<le> length (otp_code_data req) \<and> length (otp_code_data req) \<le> 6)"

definition verify_otp ::
  "environ \<Rightarrow> config \<Rightarrow> int \<Rightarrow> verify_request \<Rightarrow> world \<Rightarrow> response \<times> world" where
  "verify_otp env cfg now req w =
     (if is_authenticated (current_user_of w) then (Redirect ''uploads.gallery'', w)
      else if \<not> truthy (session_pending_email w) then
        (Redirect ''auth.register'', flash ''Please register first.'' ''warning'' w)
      else
        (let pending_email = the (session_pending_email w)
         in if \<not> (verify_submitted req \<and> OTPVerifyForm_validate req)
            then (Render ''auth/otp_verify.html'', w)
            else if find_valid cfg now pending_email (otp_code_data req) w then
              (let w = mark_used pending_email (otp_code_data req) w
               in case find_by_email pending_email w of
                    None \<Rightarrow>
                      (Redirect ''auth.register'',
                       (flash ''User not found. Please register again.'' ''error'' w)
                         \<lparr>session_pending_email := None\<rparr>)
                  | Some u \<Rightarrow>
                      (let (changed, u, w) = reconcile env pending_email u w;
                           (u, w) = verify u w;
                           w = login_user u w;
                           w = w\<lparr>session_pending_email := None\<rparr>;
                           r = (if is_admin_email env pending_email then ''admin'' else ''user'')
                       in (Redirect ''uploads.gallery'',
                           flash (''Email verified successfully! Registered as '' @ r @ ''.'')
                             ''success'' w)))
            else (Render ''auth/otp_verify.html'',
                  flash ''Invalid or expired OTP code.'' ''error'' w)))"

subsection \<open>Federated login\<close>

record user_info =
  sub :: "string option"
  info_email :: string

definition find_or_create_user_google ::
  "environ \<Rightarrow> bcrypt \<Rightarrow> int \<Rightarrow> user_info \<Rightarrow> world \<Rightarrow> user \<times> world" where
  "find_or_create_user_google env lib now info w =
     (let gid = sub info;
          e = info_email info
      in case find_by_google_id gid w of
           Some u \<Rightarrow> (u, w)
         | None \<Rightarrow>
             (case find_by_email e w of
                Some u \<Rightarrow>
                  (u\<lparr>google_id := gid, is_verified := True\<rparr>,
                   users_update_one (uid u) (\<lambda>d. d\<lparr>google_id := gid, is_verified := True\<rparr>) w)
              | None \<Rightarrow> create env lib now e None None gid w))"

text \<open>\<open>token\<close> is \<^verbatim>\<open>None\<close> when the exchange with the provider raises.\<close>

definition google_callback ::
  "environ \<Rightarrow> bcrypt \<Rightarrow> int \<Rightarrow> user_info option \<Rightarrow> world \<Rightarrow> response \<times> world" where
  "google_callback env lib now token w =
     (case token of
        None \<Rightarrow> (Redirect ''auth.login'', flash ''Google login failed. Please try again.'' ''error'' w)
      | Some info \<Rightarrow>
          (let (u, w) = find_or_create_user_google env lib now info w;
               (changed, u, w) = reconcile env (email u) u w;
               w = login_user u w
           in (Redirect ''uploads.gallery'', flash ''Logged in with Google successfully!'' ''success'' w)))"

definition logout :: "world \<Rightarrow> response \<times> world" where
  "logout w =
     (case current_user_of w of
        Anonymous \<Rightarrow> (Redirect ''auth.login'', flash ''Please log in to access this page.'' ''info'' w)
      | Identity u \<Rightarrow>
          (Redirect ''auth.login'', flash ''You have been logged out.'' ''info'' (logout_user w)))"

section \<open>Administrative scripts: \<^verbatim>\<open>create_admin.py\<close>, \<^verbatim>\<open>seed_data.py\<close>\<close>

definition create_admin_user ::
  "environ \<Rightarrow> bcrypt \<Rightarrow> int \<Rightarrow> string \<Rightarrow> string \<Rightarrow> world \<Rightarrow> bool \<times> world" where
  "create_admin_user env lib now e password w =
     (if \<not> is_admin_email env e then (False, w)
      else
        (case find_by_email e w of
           Some existing_user \<Rightarrow>
             if is_admin env existing_user then
               (if \<not> is_verified existing_user then (True, snd (verify existing_user w))
                else (True, w))
             else (False, w)
         | None \<Rightarrow>
             (let (admin, w) = create env lib now e (Some password) (Some ''admin'') None w
              in (True, snd (verify admin w)))))"

definition seed_database :: "environ \<Rightarrow> bcrypt \<Rightarrow> int \<Rightarrow> world \<Rightarrow> world" where
  "seed_database env lib now w =
     (let test_email = ''user@example.com''
      in case find_by_email test_email w of
           None \<Rightarrow>
             (let (test_user, w) = create env lib now test_email (Some ''user123'') (Some ''user'') None w
              in snd (verify test_user w))
         | Some test_user \<Rightarrow> w)"

section \<open>The system as a transition function\<close>

datatype event =
    Register register_request
  | Login login_request
  | VerifyOtp verify_request
  | GoogleCallback "user_info option"
  | Logout
  | CreateAdminUser string string
  | SeedDatabase

definition step :: "environ \<Rightarrow> config \<Rightarrow> bcrypt \<Rightarrow> int \<Rightarrow> event \<Rightarrow> world \<Rightarrow> world" where
  "step env cfg lib now ev w =
     (case ev of
        Register req \<Rightarrow> snd (register env cfg lib now req w)
      | Login req \<Rightarrow> snd (login env lib req w)
      | VerifyOtp req \<Rightarrow> snd (verify_otp env cfg now req w)
      | GoogleCallback token \<Rightarrow> snd (google_callback env lib now token w)
      | Logout \<Rightarrow> snd (logout w)
      | CreateAdminUser e password \<Rightarrow> snd (create_admin_user env lib now e password w)
      | SeedDatabase \<Rightarrow> seed_database env lib now w)"


section \<open>Reading outcomes\<close>

text \<open>The kind of denial a gate answered with, if it denied.\<close>

definition denial_of :: "gate \<Rightarrow> denial option" where
  "denial_of g = (case g of Allow \<Rightarrow> None | Deny d r f \<Rightarrow> Some d)"

text \<open>No two stored identities share an \<^verbatim>\<open>_id\<close>, and the store has not yet handed out
  the identifiers from \<open>next_id\<close> on.\<close>

definition ids_fresh :: "world \<Rightarrow> bool" where
  "ids_fresh w = (distinct (map uid (users w)) \<and> list_all (\<lambda>d. uid d < next_id w) (users w))"

section \<open>Sample data\<close>

definition alice :: user where
  "alice = \<lparr>uid = 0, email = ''alice@x.com'', password_hash = Some ''h:secret1'',
            stored_role = ''user'', is_verified = True, google_id = None, created_at = 0\<rparr>"

definition boss :: user where
  "boss = \<lparr>uid = 1, email = ''boss@x.com'', password_hash = Some ''h:secret2'',
           stored_role = ''user'', is_verified = True, google_id = None, created_at = 0\<rparr>"

definition carol :: user where
  "carol = \<lparr>uid = 2, email = ''carol@x.com'', password_hash = Some ''h:secret3'',
            stored_role = ''admin'', is_verified = True, google_id = None, created_at = 0\<rparr>"

definition admins_boss :: environ where
  "admins_boss = [''ADMIN_EMAILS'' \<mapsto> ''Boss@X.com'']"

definition admins_single :: environ where
  "admins_single = [''ADMIN_EMAILS'' \<mapsto> ''  '', ''ADMIN_EMAIL'' \<mapsto> '' Boss@X.com '']"

definition toy_bcrypt :: bcrypt where
  "toy_bcrypt = \<lparr>hashpw = (\<lambda>p. ''h:'' @ p), checkpw = (\<lambda>p h. h = ''h:'' @ p)\<rparr>"

definition office :: world where
  "office = \<lparr>users = [alice, boss, carol],
              otps = [\<lparr>otp_email = ''boss@x.com'', otp_code = ''123456'', otp_created_at = 0,
                       used = False\<rparr>],
              next_id = 3, session_pending_email = Some ''boss@x.com'', session_user_id = None,
              flashes = [], effects = []\<rparr>"

definition ten_minutes :: config where
  "ten_minutes = \<lparr>OTP_EXPIRY_MINUTES = 10, MAIL_USERNAME = Some ''mailer@x.com'',
                   MAIL_PASSWORD = Some ''pw''\<rparr>"

definition boss_login :: login_request where
  "boss_login = \<lparr>login_submitted = True, login_email = ''Boss@x.com'', login_email_syntax_ok = True,
                 login_password = ''secret2'', next_page = None\<rparr>"

definition boss_code :: verify_request where
  "boss_code = \<lparr>verify_submitted = True, otp_code_data = ''123456''\<rparr>"

definition negative_window :: config where
  "negative_window = \<lparr>OTP_EXPIRY_MINUTES = - 1, MAIL_USERNAME = Some ''mailer@x.com'',
                       MAIL_PASSWORD = Some ''pw''\<rparr>"

text \<open>The guards of \<^verbatim>\<open>register\<close>: an anonymous visitor submits a form that validates.\<close>

definition proceeds :: "register_request \<Rightarrow> world \<Rightarrow> bool" where
  "proceeds req w =
     (\<not> is_authenticated (current_user_of w) \<and> submitted req \<and> RegisterForm_validate req w)"


definition dave_registers :: register_request where
  "dave_registers = \<lparr>submitted = True, form_email = ''Dave@X.com'', email_syntax_ok = True,
                      form_password = ''secret4'', form_password_confirm = ''secret4'',
                      generated_otp = ''654321'', mail_send_ok = False, smtp_send_ok = False\<rparr>"

definition dave_again :: register_request where
  "dave_again = \<lparr>submitted = True, form_email = ''DAVE@x.com'', email_syntax_ok = True,
                  form_password = ''secret5'', form_password_confirm = ''secret5'',
                  generated_otp = ''777777'', mail_send_ok = True, smtp_send_ok = False\<rparr>"

definition boss_registers :: register_request where
  "boss_registers = \<lparr>submitted = True, form_email = ''BOSS@x.com'', email_syntax_ok = True,
                      form_password = ''secret6'', form_password_confirm = ''secret6'',
                      generated_otp = ''888888'', mail_send_ok = True, smtp_send_ok = False\<rparr>"

definition dave_pending :: world where
  "dave_pending = snd (register admins_boss ten_minutes toy_bcrypt 7000 dave_registers office)"

definition admins_dave :: environ where
  "admins_dave = [''ADMIN_EMAILS'' \<mapsto> ''boss@x.com,dave@x.com'']"

definition dave_code :: verify_request where
  "dave_code = \<lparr>verify_submitted = True, otp_code_data = ''654321''\<rparr>"

definition dave_google :: user_info where
  "dave_google = \<lparr>sub = Some ''g-dave'', info_email = ''Dave@x.com''\<rparr>"

definition erin_google :: user_info where
  "erin_google = \<lparr>sub = Some ''g-erin'', info_email = ''erin@x.com''\<rparr>"

section \<open>Normalising emails\<close>

lemma of_char_lower_char:
  "(of_char (lower_char c) :: nat) =
     (let n = of_char c
      in if (65 \<le> n \<and> n \<le> 90) \<or> (192 \<le> n \<and> n \<le> 222 \<and> n \<noteq> 215) then n + 32 else n)"
  by (simp add: lower_char_def Let_def)

lemma isspace_lower_char: "isspace (lower_char c) = isspace c"
  unfolding isspace_def of_char_lower_char by (auto simp: Let_def)

lemma lower_char_idem: "lower_char (lower_char c) = lower_char c"
proof -
  have "(of_char (lower_char (lower_char c)) :: nat) = of_char (lower_char c)"
    unfolding of_char_lower_char [of "lower_char c"] unfolding of_char_lower_char
    by (auto simp: Let_def)
  then show ?thesis by simp
qed

lemma lower_idem: "lower (lower s) = lower s"
  by (simp add: lower_def lower_char_idem)

lemma lower_Nil_iff: "lower s = [] \<longleftrightarrow> s = []"
  by (simp add: lower_def)

lemma Nil_lower_iff: "[] = lower s \<longleftrightarrow> s = []"
  by (auto simp: lower_def)

lemma lower_char_comma: "lower_char c = CHR '','' \<longleftrightarrow> c = CHR '',''"
proof
  assume "lower_char c = CHR '',''"
  then have "(of_char (lower_char c) :: nat) = of_char CHR '',''" by simp
  then have "(of_char c :: nat) = of_char CHR '',''"
    unfolding of_char_lower_char by (auto simp: Let_def split: if_splits)
  then show "c = CHR '',''" by (simp only: of_char_eq_iff)
next
  assume "c = CHR '',''" then show "lower_char c = CHR '',''"
    by (simp add: lower_char_def)
qed

lemma dropWhile_isspace_lower: "dropWhile isspace (lower s) = lower (dropWhile isspace s)"
  by (induction s) (auto simp: lower_def isspace_lower_char)

lemma strip_lower: "strip (lower s) = lower (strip s)"
proof -
  have "rev (lower s) = lower (rev s)" for s by (simp add: lower_def rev_map)
  then show ?thesis
    by (metis strip_def dropWhile_isspace_lower rev_rev_ident)
qed

lemma dropWhile_no_head: "xs = [] \<or> \<not> P (hd xs) \<Longrightarrow> dropWhile P xs = xs"
  by (cases xs) auto

lemma hd_rev_dropWhile_rev:
  "dropWhile P (rev xs) \<noteq> [] \<Longrightarrow> hd (rev (dropWhile P (rev xs))) = hd xs"
proof (induction xs rule: rev_induct)
  case Nil then show ?case by simp
next
  case (snoc x xs)
  then show ?case by (cases xs) (auto split: if_splits)
qed

lemma dropWhile_head: "dropWhile P xs = [] \<or> \<not> P (hd (dropWhile P xs))"
  by (induction xs) auto

lemma strip_idem: "strip (strip s) = strip s"
proof -
  define a where "a = dropWhile isspace s"
  define b where "b = dropWhile isspace (rev a)"
  have sb: "strip s = rev b" by (simp add: strip_def a_def b_def)
  have "rev b = [] \<or> \<not> isspace (hd (rev b))"
  proof (cases "b = []")
    case True then show ?thesis by simp
  next
    case False
    then have "hd (rev b) = hd a" unfolding b_def by (rule hd_rev_dropWhile_rev)
    moreover have "a \<noteq> []" using False b_def by auto
    ultimately show ?thesis using dropWhile_head[of isspace s] a_def by auto
  qed
  then have "dropWhile isspace (rev b) = rev b" by (rule dropWhile_no_head)
  then have "strip (rev b) = rev (dropWhile isspace b)" by (simp add: strip_def)
  also have "dropWhile isspace b = b" unfolding b_def by simp
  finally show ?thesis using sb by simp
qed

lemma strip_Nil: "strip [] = []"
  by (simp add: strip_def)

lemma normalize_idem: "lower (strip (lower (strip s))) = lower (strip s)"
  by (simp add: strip_lower strip_idem lower_idem)

lemma parse_emails_normalized:
  "map (\<lambda>a. lower (strip a)) (parse_emails xs) = parse_emails xs"
  by (induction xs) (auto simp: Let_def strip_lower strip_idem lower_idem)

lemma parse_emails_nonempty: "[] \<notin> set (parse_emails xs)"
  by (induction xs) (auto simp: Let_def lower_Nil_iff Nil_lower_iff)

lemma get_admin_emails_normalized:
  "map (\<lambda>a. lower (strip a)) (get_admin_emails env) = get_admin_emails env"
  by (simp add: get_admin_emails_def Let_def parse_emails_normalized strip_lower strip_idem lower_idem)

lemma get_admin_emails_nonempty: "[] \<notin> set (get_admin_emails env)"
  by (simp add: get_admin_emails_def Let_def parse_emails_nonempty lower_Nil_iff Nil_lower_iff)

lemma is_admin_email_iff:
  "is_admin_email env e = (lower (strip e) \<in> set (get_admin_emails env))"
  using get_admin_emails_nonempty[of env]
  by (auto simp: is_admin_email_def Let_def strip_Nil lower_def)

lemma is_admin_email_normalize:
  "is_admin_email env (lower (strip e)) = is_admin_email env e"
  by (simp add: is_admin_email_iff normalize_idem)

lemma get_admin_emails_unset:
  "strip (environ_get env ''ADMIN_EMAILS'') = [] \<Longrightarrow> strip (environ_get env ''ADMIN_EMAIL'') = []
   \<Longrightarrow> get_admin_emails env = []"
  by (simp add: get_admin_emails_def Let_def)

lemma split_comma_not_Nil: "split_comma s \<noteq> []"
  by (induction s) (auto split: list.splits)

lemma split_comma_lower: "split_comma (lower s) = map lower (split_comma s)"
proof (induction s)
  case Nil
  then show ?case by (simp add: lower_def)
next
  case (Cons c s)
  have eq: "lower (c # s) = lower_char c # lower s" by (simp add: lower_def)
  show ?case
  proof (cases "c = CHR '',''")
    case True
    then show ?thesis using Cons by (simp add: lower_def lower_char_comma)
  next
    case False
    obtain w ws where sp: "split_comma s = w # ws"
      using split_comma_not_Nil[of s] by (cases "split_comma s") auto
    with False Cons show ?thesis by (simp add: lower_def lower_char_comma)
  qed
qed

lemma parse_emails_lower: "parse_emails (map lower xs) = parse_emails xs"
  by (induction xs) (auto simp: Let_def strip_lower lower_idem lower_Nil_iff)

lemma get_admin_emails_case_insensitive:
  "get_admin_emails (env(''ADMIN_EMAILS'' \<mapsto> lower s)) = get_admin_emails (env(''ADMIN_EMAILS'' \<mapsto> s))"
  by (simp add: get_admin_emails_def environ_get_def Let_def strip_lower lower_Nil_iff
        split_comma_lower parse_emails_lower)

section \<open>The effective role\<close>

lemma parse_emails_map_filter:
  "parse_emails xs = map (\<lambda>a. lower (strip a)) (filter (\<lambda>a. strip a \<noteq> []) xs)"
  by (induction xs) (simp_all add: Let_def)

lemma get_admin_emails_configured:
  "get_admin_emails env =
     (if strip (environ_get env ''ADMIN_EMAILS'') \<noteq> []
      then map (\<lambda>a. lower (strip a))
             (filter (\<lambda>a. strip a \<noteq> []) (split_comma (strip (environ_get env ''ADMIN_EMAILS''))))
      else if strip (environ_get env ''ADMIN_EMAIL'') \<noteq> []
      then [lower (strip (environ_get env ''ADMIN_EMAIL''))]
      else [])"
  by (simp add: get_admin_emails_def Let_def parse_emails_map_filter strip_idem)

lemma listed_is_admin:
  assumes "a \<in> set (split_comma (strip (environ_get env ''ADMIN_EMAILS'')))" "strip a \<noteq> []"
    "lower (strip e) = lower (strip a)"
  shows "is_admin_email env e"
proof -
  have "strip (environ_get env ''ADMIN_EMAILS'') \<noteq> []"
  proof
    assume "strip (environ_get env ''ADMIN_EMAILS'') = []"
    with assms(1) have "a = []" by simp
    with assms(2) show False by (simp add: strip_Nil)
  qed
  with assms show ?thesis
    unfolding is_admin_email_iff get_admin_emails_configured by auto
qed

lemma single_is_admin:
  assumes "strip (environ_get env ''ADMIN_EMAILS'') = []" "strip (environ_get env ''ADMIN_EMAIL'') \<noteq> []"
    "lower (strip e) = lower (strip (environ_get env ''ADMIN_EMAIL''))"
  shows "is_admin_email env e"
  using assms unfolding is_admin_email_iff get_admin_emails_configured by simp

text \<open>
  C5. The effective role (\<^verbatim>\<open>User.role\<close>) is \<^verbatim>\<open>'admin'\<close> whenever the allow-list resolver
  reports the identity's email, whatever the stored role is, and is the stored role
  otherwise. The resolver compares the trimmed, lowercased email with the trimmed,
  lowercased entries of the configured list: the list it reads is the non-blank pieces
  of \<^verbatim>\<open>ADMIN_EMAILS\<close> between commas, each trimmed and lowercased, or, when
  \<^verbatim>\<open>ADMIN_EMAILS\<close> is absent or blank, the trimmed and lowercased \<^verbatim>\<open>ADMIN_EMAIL\<close>; its
  answer depends on the email only through \<open>lower (strip e)\<close>. So every case and space
  variant of a configured address is reported privileged, and an identity stored under
  such a variant has the effective role \<^verbatim>\<open>'admin'\<close> whatever its stored role; the case
  of the configured list does not matter either. When both \<^verbatim>\<open>ADMIN_EMAILS\<close> and
  \<^verbatim>\<open>ADMIN_EMAIL\<close> are absent or blank, the resolver answers false for every email.
\<close>

theorem effective_role_allow_list:
  "role env u = (if is_admin_email env (email u) then ''admin'' else stored_role u)
   \<and> is_admin_email env e = (lower (strip e) \<in> set (get_admin_emails env))
   \<and> is_admin_email env (lower (strip e)) = is_admin_email env e
   \<and> get_admin_emails env =
       (if strip (environ_get env ''ADMIN_EMAILS'') \<noteq> []
        then map (\<lambda>a. lower (strip a))
               (filter (\<lambda>a. strip a \<noteq> []) (split_comma (strip (environ_get env ''ADMIN_EMAILS''))))
        else if strip (environ_get env ''ADMIN_EMAIL'') \<noteq> []
        then [lower (strip (environ_get env ''ADMIN_EMAIL''))]
        else [])
   \<and> (a \<in> set (split_comma (strip (environ_get env ''ADMIN_EMAILS''))) \<and> strip a \<noteq> []
        \<and> lower (strip e) = lower (strip a)
      \<longrightarrow> is_admin_email env e \<and> role env (User (d\<lparr>email := e\<rparr>)) = ''admin'')
   \<and> (strip (environ_get env ''ADMIN_EMAILS'') = [] \<and> strip (environ_get env ''ADMIN_EMAIL'') \<noteq> []
        \<and> lower (strip e) = lower (strip (environ_get env ''ADMIN_EMAIL''))
      \<longrightarrow> is_admin_email env e \<and> role env (User (d\<lparr>email := e\<rparr>)) = ''admin'')
   \<and> map (\<lambda>a. lower (strip a)) (get_admin_emails env) = get_admin_emails env
   \<and> get_admin_emails (env(''ADMIN_EMAILS'' \<mapsto> lower s)) = get_admin_emails (env(''ADMIN_EMAILS'' \<mapsto> s))
   \<and> (strip (environ_get env ''ADMIN_EMAILS'') = [] \<and> strip (environ_get env ''ADMIN_EMAIL'') = []
        \<longrightarrow> \<not> is_admin_email env e)"
proof (intro conjI impI)
  show "role env u = (if is_admin_email env (email u) then ''admin'' else stored_role u)"
    by (simp add: role_def)
  show "is_admin_email env e = (lower (strip e) \<in> set (get_admin_emails env))"
    by (rule is_admin_email_iff)
  show "is_admin_email env (lower (strip e)) = is_admin_email env e"
    by (rule is_admin_email_normalize)
  show "get_admin_emails env =
       (if strip (environ_get env ''ADMIN_EMAILS'') \<noteq> []
        then map (\<lambda>a. lower (strip a))
               (filter (\<lambda>a. strip a \<noteq> []) (split_comma (strip (environ_get env ''ADMIN_EMAILS''))))
        else if strip (environ_get env ''ADMIN_EMAIL'') \<noteq> []
        then [lower (strip (environ_get env ''ADMIN_EMAIL''))]
        else [])"
    by (rule get_admin_emails_configured)
  show "map (\<lambda>a. lower (strip a)) (get_admin_emails env) = get_admin_emails env"
    by (rule get_admin_emails_normalized)
  show "get_admin_emails (env(''ADMIN_EMAILS'' \<mapsto> lower s)) = get_admin_emails (env(''ADMIN_EMAILS'' \<mapsto> s))"
    by (rule get_admin_emails_case_insensitive)
next
  assume h: "a \<in> set (split_comma (strip (environ_get env ''ADMIN_EMAILS''))) \<and> strip a \<noteq> []
        \<and> lower (strip e) = lower (strip a)"
  then have "a \<in> set (split_comma (strip (environ_get env ''ADMIN_EMAILS'')))" "strip a \<noteq> []"
    "lower (strip e) = lower (strip a)" by simp_all
  then show l: "is_admin_email env e" by (rule listed_is_admin)
  then show "role env (User (d\<lparr>email := e\<rparr>)) = ''admin''"
    by (simp add: role_def User_def is_admin_email_normalize)
next
  assume h: "strip (environ_get env ''ADMIN_EMAILS'') = [] \<and> strip (environ_get env ''ADMIN_EMAIL'') \<noteq> []
        \<and> lower (strip e) = lower (strip (environ_get env ''ADMIN_EMAIL''))"
  then have "strip (environ_get env ''ADMIN_EMAILS'') = []" "strip (environ_get env ''ADMIN_EMAIL'') \<noteq> []"
    "lower (strip e) = lower (strip (environ_get env ''ADMIN_EMAIL''))" by simp_all
  then show l: "is_admin_email env e" by (rule single_is_admin)
  then show "role env (User (d\<lparr>email := e\<rparr>)) = ''admin''"
    by (simp add: role_def User_def is_admin_email_normalize)
next
  assume "strip (environ_get env ''ADMIN_EMAILS'') = [] \<and> strip (environ_get env ''ADMIN_EMAIL'') = []"
  then show "\<not> is_admin_email env e"
    by (simp add: is_admin_email_iff get_admin_emails_unset)
qed

theorem effective_role_allow_list_witness:
  "(''Boss@X.com'' \<in> set (split_comma (strip (environ_get admins_boss ''ADMIN_EMAILS'')))
      \<and> strip ''Boss@X.com'' \<noteq> []
      \<and> lower (strip '' BOSS@x.COM '') = lower (strip ''Boss@X.com''))
   \<and> is_admin_email admins_boss '' BOSS@x.COM ''
   \<and> stored_role alice = ''user''
   \<and> role admins_boss (User (alice\<lparr>email := '' BOSS@x.COM ''\<rparr>)) = ''admin''
   \<and> (strip (environ_get admins_single ''ADMIN_EMAILS'') = []
      \<and> strip (environ_get admins_single ''ADMIN_EMAIL'') \<noteq> []
      \<and> lower (strip ''boss@X.COM'') = lower (strip (environ_get admins_single ''ADMIN_EMAIL'')))
   \<and> is_admin_email admins_single ''boss@X.COM''
   \<and> (strip (environ_get Map.empty ''ADMIN_EMAILS'') = []
      \<and> strip (environ_get Map.empty ''ADMIN_EMAIL'') = [])
   \<and> \<not> is_admin_email Map.empty ''boss@x.com''"
proof -
  have h1: "''Boss@X.com'' \<in> set (split_comma (strip (environ_get admins_boss ''ADMIN_EMAILS'')))
      \<and> strip ''Boss@X.com'' \<noteq> []
      \<and> lower (strip '' BOSS@x.COM '') = lower (strip ''Boss@X.com'')"
    by code_simp
  have h2: "strip (environ_get admins_single ''ADMIN_EMAILS'') = []
      \<and> strip (environ_get admins_single ''ADMIN_EMAIL'') \<noteq> []
      \<and> lower (strip ''boss@X.COM'') = lower (strip (environ_get admins_single ''ADMIN_EMAIL''))"
    by code_simp
  have h3: "strip (environ_get Map.empty ''ADMIN_EMAILS'') = []
           \<and> strip (environ_get Map.empty ''ADMIN_EMAIL'') = []"
    by (simp add: environ_get_def strip_def)
  have s: "stored_role alice = ''user''" by (simp add: alice_def)
  from effective_role_allow_list [where env = admins_boss and a = "''Boss@X.com''"
      and e = "'' BOSS@x.COM ''" and d = alice] h1
  have c1: "is_admin_email admins_boss '' BOSS@x.COM ''
      \<and> role admins_boss (User (alice\<lparr>email := '' BOSS@x.COM ''\<rparr>)) = ''admin''"
    by blast
  from effective_role_allow_list [where env = admins_single and e = "''boss@X.COM''"] h2
  have c2: "is_admin_email admins_single ''boss@X.COM''" by blast
  from effective_role_allow_list [where env = Map.empty and e = "''boss@x.com''"] h3
  have c3: "\<not> is_admin_email Map.empty ''boss@x.com''" by blast
  from h1 h2 h3 s c1 c2 c3 show ?thesis by blast
qed

section \<open>The gates\<close>

lemma is_admin_role: "is_admin env u = (role env u = ''admin'')"
  by (simp add: is_admin_def role_def)

lemma admin_required_Allow:
  "(admin_required env req (Identity u) = Allow) = (is_verified u \<and> is_admin env u)"
  by (simp add: admin_required_def login_required_def is_authenticated_def deny_not_verified_def
        get_stored_role_def is_admin_def Let_def)

lemma user_only_Allow:
  "(user_only env req (Identity u) = Allow) = (is_verified u \<and> \<not> is_admin env u)"
  by (simp add: user_only_def login_required_def deny_not_verified_def
        get_stored_role_def is_admin_def Let_def)

lemma denial_admin_required:
  "denial_of (admin_required env req a) =
     (case a of
        Anonymous \<Rightarrow> Some Unauthenticated
      | Identity u \<Rightarrow>
          if \<not> is_verified u then Some NotVerified
          else if \<not> is_admin env u then Some Forbidden
          else None)"
  by (simp add: admin_required_def login_required_def is_authenticated_def deny_not_verified_def
        get_stored_role_def is_admin_def Let_def denial_of_def split: actor.splits)

lemma denial_user_only:
  "denial_of (user_only env req a) =
     (case a of
        Anonymous \<Rightarrow> Some Unauthenticated
      | Identity u \<Rightarrow>
          if \<not> is_verified u then Some NotVerified
          else if is_admin env u then Some Forbidden
          else None)"
  by (simp add: user_only_def login_required_def deny_not_verified_def
        get_stored_role_def is_admin_def Let_def denial_of_def split: actor.splits)

text \<open>
  C10. The two admin checks agree: \<^verbatim>\<open>User.is_admin()\<close> holds exactly when the dynamic
  \<^verbatim>\<open>User.role\<close> is \<^verbatim>\<open>'admin'\<close>, and both say that the email is on the allow-list or the
  stored role is \<^verbatim>\<open>'admin'\<close>. The gates, which decompose the check into the allow-list
  lookup and the stored role, admit the same users as a test of \<^verbatim>\<open>role == 'admin'\<close>.
\<close>

theorem admin_checks_agree:
  "is_admin env u = (role env u = ''admin'')
   \<and> is_admin env u = (is_admin_email env (email u) \<or> stored_role u = ''admin'')
   \<and> (admin_required env req (Identity u) = Allow) = (is_verified u \<and> role env u = ''admin'')
   \<and> (user_only env req (Identity u) = Allow) = (is_verified u \<and> role env u \<noteq> ''admin'')"
  by (simp add: admin_required_Allow user_only_Allow is_admin_role) (simp add: role_def)

text \<open>
  C7. \<^verbatim>\<open>admin_required\<close> allows exactly the authenticated, verified actors whose effective
  role is \<^verbatim>\<open>'admin'\<close> and denies with the first requirement that fails:
  \<open>Unauthenticated\<close>, then \<open>NotVerified\<close>, then \<open>Forbidden\<close>. \<^verbatim>\<open>user_only\<close> allows exactly
  the authenticated, verified actors whose effective role is not \<^verbatim>\<open>'admin'\<close> and denies
  a verified admin with \<open>Forbidden\<close>. For a verified identity exactly one of the two
  gates allows.
\<close>

theorem gates_decide:
  "denial_of (admin_required env req a) =
     (case a of
        Anonymous \<Rightarrow> Some Unauthenticated
      | Identity u \<Rightarrow>
          if \<not> is_verified u then Some NotVerified
          else if role env u \<noteq> ''admin'' then Some Forbidden
          else None)
   \<and> denial_of (user_only env req a) =
     (case a of
        Anonymous \<Rightarrow> Some Unauthenticated
      | Identity u \<Rightarrow>
          if \<not> is_verified u then Some NotVerified
          else if role env u = ''admin'' then Some Forbidden
          else None)
   \<and> (admin_required env req a = Allow) = (denial_of (admin_required env req a) = None)
   \<and> (user_only env req a = Allow) = (denial_of (user_only env req a) = None)
   \<and> (is_verified u \<longrightarrow>
        (admin_required env req (Identity u) = Allow) = (user_only env req (Identity u) \<noteq> Allow))"
proof -
  have allow: "(g = Allow) = (denial_of g = None)" for g
    by (cases g) (simp_all add: denial_of_def)
  have one: "is_verified u \<longrightarrow>
      (admin_required env req (Identity u) = Allow) = (user_only env req (Identity u) \<noteq> Allow)"
    by (simp add: admin_required_Allow user_only_Allow)
  show ?thesis
    using allow [of "admin_required env req a"] allow [of "user_only env req a"] one
    by (simp only: denial_admin_required denial_user_only is_admin_role not_not simp_thms)
qed

theorem gates_decide_witness:
  "is_verified alice
   \<and> user_only Map.empty \<lparr>is_json = False, path = ''/uploads''\<rparr> (Identity alice) = Allow
   \<and> admin_required Map.empty \<lparr>is_json = False, path = ''/uploads''\<rparr> (Identity alice) \<noteq> Allow"
proof -
  have v: "is_verified alice" by (simp add: alice_def)
  have a: "user_only Map.empty \<lparr>is_json = False, path = ''/uploads''\<rparr> (Identity alice) = Allow"
    by code_simp
  have "is_verified alice \<longrightarrow>
        (admin_required Map.empty \<lparr>is_json = False, path = ''/uploads''\<rparr> (Identity alice) = Allow)
        = (user_only Map.empty \<lparr>is_json = False, path = ''/uploads''\<rparr> (Identity alice) \<noteq> Allow)"
    using gates_decide [of Map.empty "\<lparr>is_json = False, path = ''/uploads''\<rparr>" "Identity alice" alice]
    by blast
  with v a show ?thesis by simp
qed

section \<open>Reconciling the stored role\<close>

lemma User_fields:
  "uid (User d) = uid d" "stored_role (User d) = stored_role d"
  "is_verified (User d) = is_verified d" "password_hash (User d) = password_hash d"
  "google_id (User d) = google_id d" "email (User d) = lower (strip (email d))"
  by (simp_all add: User_def)

lemma find_by_email_SomeD:
  assumes "find_by_email e w = Some u"
  obtains d where "find (\<lambda>d. email d = lower (strip e)) (users w) = Some d" "u = User d"
    "lower (strip e) \<noteq> []"
  using assms by (auto simp: find_by_email_def Let_def split: if_splits option.splits)

lemma find_by_email_email:
  assumes "find_by_email e w = Some u"
  shows "email u = lower (strip e)"
proof -
  from assms obtain d where d: "find (\<lambda>d. email d = lower (strip e)) (users w) = Some d" "u = User d"
    by (rule find_by_email_SomeD)
  from d(1) have "email d = lower (strip e)" by (auto simp: find_Some_iff)
  with d(2) show ?thesis by (simp add: User_fields normalize_idem)
qed

lemma find_update_first:
  assumes "find P xs = Some d" "distinct (map uid xs)" "\<And>x. P (f x) = P x"
  shows "find P (update_first (\<lambda>x. uid x = uid d) f xs) = Some (f d)"
  using assms(1,2)
proof (induction xs)
  case Nil
  then show ?case by simp
next
  case (Cons x xs)
  show ?case
  proof (cases "P x")
    case True
    with Cons.prems have "d = x" by simp
    with True assms(3) show ?thesis by simp
  next
    case False
    with Cons.prems have f: "find P xs = Some d" and dist: "distinct (map uid xs)"
      and nin: "uid x \<notin> uid ` set xs" by auto
    from f have "d \<in> set xs" by (auto simp: find_Some_iff)
    with nin have "uid x \<noteq> uid d" by auto
    with False assms(3) Cons.IH [OF f dist] show ?thesis by simp
  qed
qed

lemma find_by_email_update_one:
  assumes "find_by_email e w = Some u" "distinct (map uid (users w))"
    "\<And>d. email (f d) = email d" "\<And>d. User (f d) = g (User d)"
  shows "find_by_email e (users_update_one (uid u) f w) = Some (g u)"
proof -
  from assms(1) obtain d where d: "find (\<lambda>d. email d = lower (strip e)) (users w) = Some d"
    "u = User d" "lower (strip e) \<noteq> []"
    by (rule find_by_email_SomeD)
  have "find (\<lambda>d. email d = lower (strip e)) (update_first (\<lambda>x. uid x = uid d) f (users w)) = Some (f d)"
    using d(1) assms(2) by (rule find_update_first) (simp add: assms(3))
  with d(2,3) show ?thesis
    by (simp add: find_by_email_def users_update_one_def record_effect_def User_fields assms(4))
qed

lemma reconcile_cases:
  "reconcile env c u w =
     (if is_admin_email env c \<and> stored_role u \<noteq> ''admin''
      then (Changed, u\<lparr>stored_role := ''admin''\<rparr>,
            users_update_one (uid u) (\<lambda>d. d\<lparr>stored_role := ''admin''\<rparr>) w)
      else if \<not> is_admin_email env c \<and> stored_role u = ''admin''
      then (Changed, u\<lparr>stored_role := ''user''\<rparr>,
            users_update_one (uid u) (\<lambda>d. d\<lparr>stored_role := ''user''\<rparr>) w)
      else (Unchanged, u, w))"
  by (simp add: reconcile_def update_role_def get_stored_role_def Let_def)

lemma find_by_email_reconcile:
  assumes "find_by_email e w = Some u" "distinct (map uid (users w))"
  shows "find_by_email e (snd (snd (reconcile env c u w))) = Some (fst (snd (reconcile env c u w)))"
proof -
  have upd: "find_by_email e (users_update_one (uid u) (\<lambda>d. d\<lparr>stored_role := r\<rparr>) w)
             = Some (u\<lparr>stored_role := r\<rparr>)" for r
    using assms by (rule find_by_email_update_one) (simp_all add: User_def)
  show ?thesis using assms(1) by (simp add: reconcile_cases upd)
qed

lemma map_uid_update_first:
  "(\<And>x. uid (f x) = uid x) \<Longrightarrow> map uid (update_first P f xs) = map uid xs"
  by (induction xs) auto

lemma users_reconcile_uids:
  "map uid (users (snd (snd (reconcile env c u w)))) = map uid (users w)"
  by (simp add: reconcile_cases users_update_one_def record_effect_def map_uid_update_first)

lemma is_admin_email_found:
  "find_by_email e w = Some u \<Longrightarrow> is_admin_email env (email u) = is_admin_email env e"
  by (simp add: find_by_email_email is_admin_email_normalize)

lemma reconcile_found:
  "find_by_email e w = Some u \<Longrightarrow> reconcile env e u w' = reconcile env (email u) u w'"
  by (simp add: reconcile_def is_admin_email_found)

lemma users_mark_used: "users (mark_used e c w) = users w"
  by (simp add: mark_used_def record_effect_def)

lemma find_by_email_mark_used: "find_by_email e (mark_used e' c w) = find_by_email e w"
  by (simp add: find_by_email_def users_mark_used Let_def)

lemma login_success:
  assumes "\<not> is_authenticated (current_user_of w)" "login_submitted req" "LoginForm_validate req"
    "find_by_email (login_email req) w = Some u" "check_password lib u (login_password req)"
    "is_verified u"
  shows "snd (login env lib req w) = login_user (fst (snd (reconcile env (email u) u w)))
                                       (snd (snd (reconcile env (email u) u w)))"
  using assms by (simp add: login_def Let_def case_prod_beta)

lemma verify_otp_success:
  assumes "\<not> is_authenticated (current_user_of w)" "session_pending_email w = Some p" "p \<noteq> []"
    "verify_submitted req" "OTPVerifyForm_validate req"
    "find_valid cfg now p (otp_code_data req) w" "find_by_email p w = Some u"
  shows "snd (verify_otp env cfg now req w) =
     (let w0 = mark_used p (otp_code_data req) w;
          u1 = fst (snd (reconcile env (email u) u w0));
          w1 = snd (snd (reconcile env (email u) u w0));
          w2 = login_user (fst (verify u1 w1)) (snd (verify u1 w1))
      in flash (''Email verified successfully! Registered as ''
                  @ (if is_admin_email env p then ''admin'' else ''user'') @ ''.'') ''success''
           (w2\<lparr>session_pending_email := None\<rparr>))"
  using assms reconcile_found [OF assms(7), of env]
  by (simp add: verify_otp_def Let_def case_prod_beta truthy_def find_by_email_mark_used)

lemma google_callback_success:
  "snd (google_callback env lib now (Some info) w) =
     (let u0 = fst (find_or_create_user_google env lib now info w);
          w0 = snd (find_or_create_user_google env lib now info w);
          u1 = fst (snd (reconcile env (email u0) u0 w0));
          w1 = snd (snd (reconcile env (email u0) u0 w0))
      in flash ''Logged in with Google successfully!'' ''success'' (login_user u1 w1))"
  by (simp add: google_callback_def Let_def case_prod_beta)

text \<open>
  C1, as the claim states it, fails: \<open>carol\<close> is not on the allow-list and her stored
  role is \<^verbatim>\<open>'admin'\<close>, so her effective role equals her stored role; the role block
  nevertheless writes \<^verbatim>\<open>'user'\<close> and reports a change.
\<close>

theorem reconcile_not_listed_counterexample:
  "\<not> is_admin_email admins_boss (email carol)
   \<and> role admins_boss carol = stored_role carol
   \<and> fst (reconcile admins_boss (email carol) carol office) = Changed
   \<and> stored_role (fst (snd (reconcile admins_boss (email carol) carol office))) = ''user''
   \<and> map stored_role (users office) = [''user'', ''user'', ''admin'']
   \<and> map stored_role (users (snd (snd (reconcile admins_boss (email carol) carol office))))
       = [''user'', ''user'', ''user'']"
  by code_simp

text \<open>
  C1, amended. The role block sets the stored role to \<^verbatim>\<open>'admin'\<close> when the allow-list
  reports the email, to \<^verbatim>\<open>'user'\<close> when the allow-list does not report it and the stored
  role is \<^verbatim>\<open>'admin'\<close>, and leaves it as it is otherwise; it writes to the store and
  reports \<open>Changed\<close> exactly when that value differs from the current stored role, and
  otherwise writes nothing and reports \<open>Unchanged\<close>. The block runs at every successful
  authentication: a password login leaves the state of the block with the user logged
  in, an OTP-verified login leaves the identities that the block followed by
  \<^verbatim>\<open>verify\<close> leaves, and a federated login leaves the identities that the block leaves
  after \<^verbatim>\<open>find_or_create_user_google\<close>.
\<close>

theorem reconcile_at_authentication:
  "(case reconcile env c u w of
      (r, u1, w1) \<Rightarrow>
        u1 = u\<lparr>stored_role :=
                 (if is_admin_email env c then ''admin''
                  else if stored_role u = ''admin'' then ''user'' else stored_role u)\<rparr>
        \<and> (r = Changed) = (stored_role u1 \<noteq> stored_role u)
        \<and> w1 = (if r = Changed
                 then users_update_one (uid u) (\<lambda>d. d\<lparr>stored_role := stored_role u1\<rparr>) w
                 else w))
   \<and> (\<not> is_authenticated (current_user_of w) \<and> login_submitted lreq \<and> LoginForm_validate lreq
        \<and> find_by_email (login_email lreq) w = Some lu
        \<and> check_password lib lu (login_password lreq) \<and> is_verified lu
      \<longrightarrow> snd (login env lib lreq w) =
            (case reconcile env (email lu) lu w of (r, u1, w1) \<Rightarrow> login_user u1 w1))
   \<and> (\<not> is_authenticated (current_user_of w) \<and> session_pending_email w = Some p \<and> p \<noteq> []
        \<and> verify_submitted vreq \<and> OTPVerifyForm_validate vreq
        \<and> find_valid cfg now p (otp_code_data vreq) w \<and> find_by_email p w = Some vu
      \<longrightarrow> users (snd (verify_otp env cfg now vreq w)) =
            (case reconcile env (email vu) vu (mark_used p (otp_code_data vreq) w) of
               (r, u1, w1) \<Rightarrow> users (snd (verify u1 w1))))
   \<and> users (snd (google_callback env lib now (Some info) w)) =
        (case find_or_create_user_google env lib now info w of
           (gu, w0) \<Rightarrow> (case reconcile env (email gu) gu w0 of (r, u1, w1) \<Rightarrow> users w1))"
proof (intro conjI impI)
  show "case reconcile env c u w of
      (r, u1, w1) \<Rightarrow>
        u1 = u\<lparr>stored_role :=
                 (if is_admin_email env c then ''admin''
                  else if stored_role u = ''admin'' then ''user'' else stored_role u)\<rparr>
        \<and> (r = Changed) = (stored_role u1 \<noteq> stored_role u)
        \<and> w1 = (if r = Changed
                 then users_update_one (uid u) (\<lambda>d. d\<lparr>stored_role := stored_role u1\<rparr>) w
                 else w)"
    by (simp add: reconcile_cases)
next
  assume "\<not> is_authenticated (current_user_of w) \<and> login_submitted lreq \<and> LoginForm_validate lreq
        \<and> find_by_email (login_email lreq) w = Some lu
        \<and> check_password lib lu (login_password lreq) \<and> is_verified lu"
  then show "snd (login env lib lreq w) =
            (case reconcile env (email lu) lu w of (r, u1, w1) \<Rightarrow> login_user u1 w1)"
    by (simp add: login_success case_prod_beta)
next
  assume "\<not> is_authenticated (current_user_of w) \<and> session_pending_email w = Some p \<and> p \<noteq> []
        \<and> verify_submitted vreq \<and> OTPVerifyForm_validate vreq
        \<and> find_valid cfg now p (otp_code_data vreq) w \<and> find_by_email p w = Some vu"
  then show "users (snd (verify_otp env cfg now vreq w)) =
            (case reconcile env (email vu) vu (mark_used p (otp_code_data vreq) w) of
               (r, u1, w1) \<Rightarrow> users (snd (verify u1 w1)))"
    by (simp add: verify_otp_success case_prod_beta Let_def flash_def login_user_def)
next
  show "users (snd (google_callback env lib now (Some info) w)) =
        (case find_or_create_user_google env lib now info w of
           (gu, w0) \<Rightarrow> (case reconcile env (email gu) gu w0 of (r, u1, w1) \<Rightarrow> users w1))"
    by (simp add: google_callback_success case_prod_beta Let_def flash_def login_user_def)
qed

theorem reconcile_at_authentication_witness:
  "(\<not> is_authenticated (current_user_of office) \<and> login_submitted boss_login
      \<and> LoginForm_validate boss_login \<and> find_by_email (login_email boss_login) office = Some boss
      \<and> check_password toy_bcrypt boss (login_password boss_login) \<and> is_verified boss)
   \<and> (session_pending_email office = Some ''boss@x.com''
      \<and> verify_submitted boss_code \<and> OTPVerifyForm_validate boss_code
      \<and> find_valid ten_minutes 1000 ''boss@x.com'' (otp_code_data boss_code) office
      \<and> find_by_email ''boss@x.com'' office = Some boss)
   \<and> snd (login admins_boss toy_bcrypt boss_login office) =
        (case reconcile admins_boss (email boss) boss office of (r, u1, w1) \<Rightarrow> login_user u1 w1)
   \<and> users (snd (verify_otp admins_boss ten_minutes 1000 boss_code office)) =
        (case reconcile admins_boss (email boss) boss
                (mark_used ''boss@x.com'' (otp_code_data boss_code) office) of
           (r, u1, w1) \<Rightarrow> users (snd (verify u1 w1)))
   \<and> map stored_role (users (snd (login admins_boss toy_bcrypt boss_login office)))
        = [''user'', ''admin'', ''admin'']"
proof -
  have h1: "\<not> is_authenticated (current_user_of office) \<and> login_submitted boss_login
      \<and> LoginForm_validate boss_login \<and> find_by_email (login_email boss_login) office = Some boss
      \<and> check_password toy_bcrypt boss (login_password boss_login) \<and> is_verified boss"
    by code_simp
  have h2: "session_pending_email office = Some ''boss@x.com''
      \<and> verify_submitted boss_code \<and> OTPVerifyForm_validate boss_code
      \<and> find_valid ten_minutes 1000 ''boss@x.com'' (otp_code_data boss_code) office
      \<and> find_by_email ''boss@x.com'' office = Some boss"
    by code_simp
  have h3: "map stored_role (users (snd (login admins_boss toy_bcrypt boss_login office)))
        = [''user'', ''admin'', ''admin'']"
    by code_simp
  note t = reconcile_at_authentication [where env = admins_boss and w = office and lreq = boss_login
      and lu = boss and lib = toy_bcrypt and p = "''boss@x.com''" and vreq = boss_code
      and cfg = ten_minutes and now = 1000 and vu = boss]
  from t h1 have c1: "snd (login admins_boss toy_bcrypt boss_login office) =
        (case reconcile admins_boss (email boss) boss office of (r, u1, w1) \<Rightarrow> login_user u1 w1)"
    by blast
  from t h1 h2 have c2: "users (snd (verify_otp admins_boss ten_minutes 1000 boss_code office)) =
        (case reconcile admins_boss (email boss) boss
                (mark_used ''boss@x.com'' (otp_code_data boss_code) office) of
           (r, u1, w1) \<Rightarrow> users (snd (verify u1 w1)))"
    by simp
  from h1 h2 h3 c1 c2 show ?thesis by blast
qed


text \<open>
  C8. The role block is idempotent: after one run the stored role equals the effective
  role, and a second run under the same allow-list writes nothing and reports
  \<open>Unchanged\<close>. Where identifiers are distinct, the identity that the next login loads
  by the same email is the one the first run left, so this holds across two logins.
\<close>

theorem reconcile_idempotent:
  "(case reconcile env (email u) u w of
      (r1, u1, w1) \<Rightarrow>
        stored_role u1 = role env u1 \<and> reconcile env (email u1) u1 w1 = (Unchanged, u1, w1))
   \<and> (find_by_email e w = Some u \<and> distinct (map uid (users w)) \<longrightarrow>
        (case reconcile env (email u) u w of
           (r1, u1, w1) \<Rightarrow>
             find_by_email e w1 = Some u1 \<and> distinct (map uid (users w1))))"
proof -
  have a: "case reconcile env (email u) u w of
      (r1, u1, w1) \<Rightarrow>
        stored_role u1 = role env u1 \<and> reconcile env (email u1) u1 w1 = (Unchanged, u1, w1)"
    by (simp add: reconcile_cases role_def)
  have b: "case reconcile env (email u) u w of
           (r1, u1, w1) \<Rightarrow>
             find_by_email e w1 = Some u1 \<and> distinct (map uid (users w1))"
    if h: "find_by_email e w = Some u" "distinct (map uid (users w))"
    using find_by_email_reconcile [OF h, of env "email u"]
      users_reconcile_uids [of env "email u" u w] h(2)
    by (simp add: case_prod_beta)
  show ?thesis
  proof (intro conjI impI)
    show "case reconcile env (email u) u w of
      (r1, u1, w1) \<Rightarrow>
        stored_role u1 = role env u1 \<and> reconcile env (email u1) u1 w1 = (Unchanged, u1, w1)"
      by (rule a)
  next
    assume "find_by_email e w = Some u \<and> distinct (map uid (users w))"
    then have h1: "find_by_email e w = Some u" and h2: "distinct (map uid (users w))"
      by simp_all
    show "case reconcile env (email u) u w of
           (r1, u1, w1) \<Rightarrow>
             find_by_email e w1 = Some u1 \<and> distinct (map uid (users w1))"
      using h1 h2 by (rule b)
  qed
qed

theorem reconcile_idempotent_witness:
  "find_by_email ''Boss@X.com '' office = Some boss \<and> distinct (map uid (users office))
   \<and> (case reconcile admins_boss (email boss) boss office of
         (r1, u1, w1) \<Rightarrow>
           find_by_email ''Boss@X.com '' w1 = Some u1 \<and> distinct (map uid (users w1)))"
proof -
  have h: "find_by_email ''Boss@X.com '' office = Some boss \<and> distinct (map uid (users office))"
    by code_simp
  have "find_by_email ''Boss@X.com '' office = Some boss \<and> distinct (map uid (users office))
      \<longrightarrow> (case reconcile admins_boss (email boss) boss office of
             (r1, u1, w1) \<Rightarrow>
               find_by_email ''Boss@X.com '' w1 = Some u1 \<and> distinct (map uid (users w1)))"
    using reconcile_idempotent [of admins_boss boss office "''Boss@X.com ''"] by (rule conjunct2)
  from this h have c: "case reconcile admins_boss (email boss) boss office of
             (r1, u1, w1) \<Rightarrow>
               find_by_email ''Boss@X.com '' w1 = Some u1 \<and> distinct (map uid (users w1))"
    by (rule mp)
  show ?thesis by (intro conjI conjunct1 [OF h] conjunct2 [OF h] c)
qed

section \<open>One-time codes\<close>

lemma find_valid_iff:
  "find_valid cfg now e c w =
     (\<exists>d \<in> set (otps w). otp_email d = e \<and> otp_code d = c \<and> \<not> used d
        \<and> now - otp_created_at d \<le> minutes (OTP_EXPIRY_MINUTES cfg))"
proof -
  have "(find P xs \<noteq> None) = (\<exists>d \<in> set xs. P d)" for P :: "otp \<Rightarrow> bool" and xs
    by (auto simp: find_None_iff)
  then show ?thesis
    unfolding find_valid_def Let_def by (auto simp: algebra_simps)
qed

lemma single_record_used:
  "length (filter P xs) \<le> 1 \<Longrightarrow> (\<And>d. P (d\<lparr>used := True\<rparr>) = P d) \<Longrightarrow>
   d \<in> set (update_first P (\<lambda>d. d\<lparr>used := True\<rparr>) xs) \<Longrightarrow> P d \<Longrightarrow> used d"
proof (induction xs)
  case Nil
  then show ?case by simp
next
  case (Cons x xs)
  show ?case
  proof (cases "P x")
    case True
    with Cons.prems(1) have "filter P xs = []" by simp
    then have "\<forall>y \<in> set xs. \<not> P y" by (simp add: filter_empty_conv)
    with True Cons.prems show ?thesis by auto
  next
    case False
    with Cons show ?thesis by auto
  qed
qed

lemma otps_mark_used:
  "otps (mark_used e c w) =
     update_first (\<lambda>d. otp_email d = e \<and> otp_code d = c) (\<lambda>d. d\<lparr>used := True\<rparr>) (otps w)"
  by (simp add: mark_used_def record_effect_def)

lemma consumed_once:
  assumes "length (filter (\<lambda>d. otp_email d = e \<and> otp_code d = c) (otps w)) \<le> 1"
  shows "\<not> find_valid cfg now' e c (mark_used e c w)"
proof -
  have "used d" if "d \<in> set (otps (mark_used e c w))" "otp_email d = e \<and> otp_code d = c" for d
    using assms _ that(1)[unfolded otps_mark_used] that(2)
    by (rule single_record_used) simp
  then show ?thesis by (auto simp: find_valid_iff)
qed

lemma verify_otp_invalid:
  assumes "\<not> is_authenticated (current_user_of w)" "session_pending_email w = Some p" "p \<noteq> []"
    "verify_submitted req" "OTPVerifyForm_validate req"
    "\<not> find_valid cfg now p (otp_code_data req) w"
  shows "verify_otp env cfg now req w =
           (Render ''auth/otp_verify.html'', flash ''Invalid or expired OTP code.'' ''error'' w)"
  using assms by (simp add: verify_otp_def truthy_def Let_def)

lemma verify_fields:
  "users (snd (verify u w)) = update_first (\<lambda>d. uid d = uid u) (\<lambda>d. d\<lparr>is_verified := True\<rparr>) (users w)"
  "otps (snd (verify u w)) = otps w"
  "is_verified (fst (verify u w))" "uid (fst (verify u w)) = uid u"
  by (simp_all add: verify_def users_update_one_def record_effect_def)

lemma reconcile_fields:
  "otps (snd (snd (reconcile env c u w))) = otps w"
  "uid (fst (snd (reconcile env c u w))) = uid u"
  by (simp_all add: reconcile_cases users_update_one_def record_effect_def)

lemma verify_otp_valid:
  assumes "\<not> is_authenticated (current_user_of w)" "session_pending_email w = Some p" "p \<noteq> []"
    "verify_submitted req" "OTPVerifyForm_validate req"
    "find_valid cfg now p (otp_code_data req) w" "find_by_email p w = Some u"
  shows "fst (verify_otp env cfg now req w) = Redirect ''uploads.gallery''"
    "otps (snd (verify_otp env cfg now req w)) = otps (mark_used p (otp_code_data req) w)"
    "session_user_id (snd (verify_otp env cfg now req w)) = Some (uid u)"
    "session_pending_email (snd (verify_otp env cfg now req w)) = None"
  using assms
  by (simp_all add: verify_otp_def truthy_def Let_def case_prod_beta find_by_email_mark_used
        flash_def login_user_def verify_fields reconcile_fields)

lemma verify_otp_valid_otps:
  assumes "\<not> is_authenticated (current_user_of w)" "session_pending_email w = Some p" "p \<noteq> []"
    "verify_submitted req" "OTPVerifyForm_validate req"
    "find_valid cfg now p (otp_code_data req) w"
  shows "otps (snd (verify_otp env cfg now req w)) = otps (mark_used p (otp_code_data req) w)"
  using assms
  by (simp add: verify_otp_def truthy_def Let_def case_prod_beta
        flash_def login_user_def verify_fields reconcile_fields split: option.splits)

lemma update_first_single:
  "length (filter P xs) \<le> 1 \<Longrightarrow> update_first P f xs = map (\<lambda>d. if P d then f d else d) xs"
proof (induction xs)
  case Nil
  then show ?case by simp
next
  case (Cons x xs)
  show ?case
  proof (cases "P x")
    case True
    with Cons.prems have "filter P xs = []" by simp
    then have "\<forall>y \<in> set xs. \<not> P y" by (simp add: filter_empty_conv)
    then have "map (\<lambda>d. if P d then f d else d) xs = xs" by (simp add: map_idI)
    with True show ?thesis by simp
  next
    case False
    with Cons show ?thesis by simp
  qed
qed

lemma verify_otp_marks_single:
  assumes "\<not> is_authenticated (current_user_of w)" "session_pending_email w = Some p" "p \<noteq> []"
    "verify_submitted req" "OTPVerifyForm_validate req"
    "find_valid cfg now p (otp_code_data req) w"
    "length (filter (\<lambda>d. otp_email d = p \<and> otp_code d = otp_code_data req) (otps w)) \<le> 1"
  shows "otps (snd (verify_otp env cfg now req w)) =
           map (\<lambda>d. if otp_email d = p \<and> otp_code d = otp_code_data req
                     then d\<lparr>used := True\<rparr> else d) (otps w)"
  using assms(7)
  by (simp add: verify_otp_valid_otps [OF assms(1-6)] otps_mark_used update_first_single)

text \<open>
  C2, as the claim states it, fails: a code issued exactly ten minutes ago, with a
  window of ten minutes, is still accepted, although the elapsed time is not strictly
  less than the window.
\<close>

theorem verify_at_boundary_counterexample:
  "OTP_EXPIRY_MINUTES ten_minutes = 10
   \<and> otps office = [\<lparr>otp_email = ''boss@x.com'', otp_code = ''123456'', otp_created_at = 0,
                      used = False\<rparr>]
   \<and> \<not> (minutes 10 - 0 < minutes (OTP_EXPIRY_MINUTES ten_minutes))
   \<and> find_valid ten_minutes (minutes 10) ''boss@x.com'' ''123456'' office
   \<and> fst (verify_otp admins_boss ten_minutes (minutes 10) boss_code office)
       = Redirect ''uploads.gallery''
   \<and> map_option is_verified
        (find_by_email ''boss@x.com''
           (snd (verify_otp admins_boss ten_minutes (minutes 10) boss_code office))) = Some True"
  by code_simp

text \<open>
  C2, amended. \<^verbatim>\<open>find_valid\<close> accepts a pair of email and code exactly when a record of
  the pair exists that is unused and whose age is at most the expiry window
  (\<^verbatim>\<open>created_at >= now - window\<close>). A submitted verification with an accepted code, for
  an email that has an identity, logs the identity in; when the pair has a single
  record it marks that record used and leaves every other record as it is; with a code
  that is not accepted it answers \<^verbatim>\<open>Invalid or expired OTP code.\<close> and changes nothing
  else. When the pair has a single record, the code is never accepted again after
  \<^verbatim>\<open>mark_used\<close>; and a code whose records are all older than the window is not
  accepted, used or not.
\<close>

theorem verify_code_validity:
  "find_valid cfg now e c w =
     (\<exists>d \<in> set (otps w). otp_email d = e \<and> otp_code d = c \<and> \<not> used d
        \<and> now - otp_created_at d \<le> minutes (OTP_EXPIRY_MINUTES cfg))
   \<and> (\<not> is_authenticated (current_user_of w) \<and> session_pending_email w = Some p \<and> p \<noteq> []
        \<and> verify_submitted req \<and> OTPVerifyForm_validate req
      \<longrightarrow> (if find_valid cfg now p (otp_code_data req) w
           then (length (filter (\<lambda>d. otp_email d = p \<and> otp_code d = otp_code_data req) (otps w)) \<le> 1
                   \<longrightarrow> otps (snd (verify_otp env cfg now req w)) =
                         map (\<lambda>d. if otp_email d = p \<and> otp_code d = otp_code_data req
                                   then d\<lparr>used := True\<rparr> else d) (otps w))
                \<and> (find_by_email p w \<noteq> None \<longrightarrow>
                     fst (verify_otp env cfg now req w) = Redirect ''uploads.gallery''
                     \<and> session_user_id (snd (verify_otp env cfg now req w)) \<noteq> None)
           else verify_otp env cfg now req w =
                  (Render ''auth/otp_verify.html'',
                   flash ''Invalid or expired OTP code.'' ''error'' w)))
   \<and> (length (filter (\<lambda>d. otp_email d = e \<and> otp_code d = c) (otps w)) \<le> 1
      \<longrightarrow> \<not> find_valid cfg later e c (mark_used e c w))
   \<and> ((\<forall>d \<in> set (otps w). otp_email d = e \<and> otp_code d = c
          \<longrightarrow> minutes (OTP_EXPIRY_MINUTES cfg) < now - otp_created_at d)
      \<longrightarrow> \<not> find_valid cfg now e c w)"
proof (intro conjI impI)
  show "find_valid cfg now e c w =
     (\<exists>d \<in> set (otps w). otp_email d = e \<and> otp_code d = c \<and> \<not> used d
        \<and> now - otp_created_at d \<le> minutes (OTP_EXPIRY_MINUTES cfg))"
    by (rule find_valid_iff)
next
  assume h: "\<not> is_authenticated (current_user_of w) \<and> session_pending_email w = Some p \<and> p \<noteq> []
        \<and> verify_submitted req \<and> OTPVerifyForm_validate req"
  show "if find_valid cfg now p (otp_code_data req) w
           then (length (filter (\<lambda>d. otp_email d = p \<and> otp_code d = otp_code_data req) (otps w)) \<le> 1
                   \<longrightarrow> otps (snd (verify_otp env cfg now req w)) =
                         map (\<lambda>d. if otp_email d = p \<and> otp_code d = otp_code_data req
                                   then d\<lparr>used := True\<rparr> else d) (otps w))
                \<and> (find_by_email p w \<noteq> None \<longrightarrow>
                     fst (verify_otp env cfg now req w) = Redirect ''uploads.gallery''
                     \<and> session_user_id (snd (verify_otp env cfg now req w)) \<noteq> None)
           else verify_otp env cfg now req w =
                  (Render ''auth/otp_verify.html'',
                   flash ''Invalid or expired OTP code.'' ''error'' w)"
  proof (cases "find_valid cfg now p (otp_code_data req) w")
    case True
    have a: "fst (verify_otp env cfg now req w) = Redirect ''uploads.gallery''
          \<and> session_user_id (snd (verify_otp env cfg now req w)) \<noteq> None"
      if "find_by_email p w \<noteq> None"
    proof -
      from that obtain u where "find_by_email p w = Some u" by auto
      with h True show ?thesis by (simp add: verify_otp_valid)
    qed
    have b: "otps (snd (verify_otp env cfg now req w)) =
                         map (\<lambda>d. if otp_email d = p \<and> otp_code d = otp_code_data req
                                   then d\<lparr>used := True\<rparr> else d) (otps w)"
      if "length (filter (\<lambda>d. otp_email d = p \<and> otp_code d = otp_code_data req) (otps w)) \<le> 1"
      using h True that by (simp add: verify_otp_marks_single)
    from a b True show ?thesis by simp
  next
    case False
    with h show ?thesis by (simp add: verify_otp_invalid)
  qed
next
  assume "length (filter (\<lambda>d. otp_email d = e \<and> otp_code d = c) (otps w)) \<le> 1"
  then show "\<not> find_valid cfg later e c (mark_used e c w)" by (rule consumed_once)
next
  assume "\<forall>d \<in> set (otps w). otp_email d = e \<and> otp_code d = c
          \<longrightarrow> minutes (OTP_EXPIRY_MINUTES cfg) < now - otp_created_at d"
  then show "\<not> find_valid cfg now e c w" by (fastforce simp: find_valid_iff)
qed

theorem verify_code_validity_witness:
  "(\<not> is_authenticated (current_user_of office) \<and> session_pending_email office = Some ''boss@x.com''
      \<and> verify_submitted boss_code \<and> OTPVerifyForm_validate boss_code)
   \<and> find_valid ten_minutes (minutes 10) ''boss@x.com'' (otp_code_data boss_code) office
   \<and> find_by_email ''boss@x.com'' office \<noteq> None
   \<and> fst (verify_otp admins_boss ten_minutes (minutes 10) boss_code office) = Redirect ''uploads.gallery''
   \<and> length (filter (\<lambda>d. otp_email d = ''boss@x.com'' \<and> otp_code d = ''123456'') (otps office)) \<le> 1
   \<and> otps (snd (verify_otp admins_boss ten_minutes (minutes 10) boss_code office)) =
        [\<lparr>otp_email = ''boss@x.com'', otp_code = ''123456'', otp_created_at = 0, used = True\<rparr>]
   \<and> \<not> find_valid ten_minutes (minutes 10) ''boss@x.com'' ''123456''
         (mark_used ''boss@x.com'' ''123456'' office)
   \<and> list_all (\<lambda>d. minutes (OTP_EXPIRY_MINUTES ten_minutes) < minutes 10 + 1 - otp_created_at d)
        (otps office)
   \<and> \<not> find_valid ten_minutes (minutes 10 + 1) ''boss@x.com'' ''123456'' office"
proof -
  have h1: "\<not> is_authenticated (current_user_of office)
      \<and> session_pending_email office = Some ''boss@x.com'' \<and> ''boss@x.com'' \<noteq> []
      \<and> verify_submitted boss_code \<and> OTPVerifyForm_validate boss_code"
    by code_simp
  have h2: "find_valid ten_minutes (minutes 10) ''boss@x.com'' (otp_code_data boss_code) office"
    by code_simp
  have h3: "find_by_email ''boss@x.com'' office \<noteq> None" by code_simp
  have h4: "length (filter (\<lambda>d. otp_email d = ''boss@x.com'' \<and> otp_code d = ''123456'') (otps office)) \<le> 1"
    by code_simp
  have h4': "length (filter (\<lambda>d. otp_email d = ''boss@x.com'' \<and> otp_code d = otp_code_data boss_code)
                (otps office)) \<le> 1"
    by code_simp
  have h5: "list_all (\<lambda>d. minutes (OTP_EXPIRY_MINUTES ten_minutes) < minutes 10 + 1 - otp_created_at d)
        (otps office)"
    by code_simp
  then have h5': "\<forall>d \<in> set (otps office). otp_email d = ''boss@x.com'' \<and> otp_code d = ''123456''
          \<longrightarrow> minutes (OTP_EXPIRY_MINUTES ten_minutes) < minutes 10 + 1 - otp_created_at d"
    by (simp add: list_all_iff)
  have m: "map (\<lambda>d. if otp_email d = ''boss@x.com'' \<and> otp_code d = otp_code_data boss_code
                     then d\<lparr>used := True\<rparr> else d) (otps office) =
        [\<lparr>otp_email = ''boss@x.com'', otp_code = ''123456'', otp_created_at = 0, used = True\<rparr>]"
    by code_simp
  note t = verify_code_validity [where cfg = ten_minutes and w = office and p = "''boss@x.com''"
      and req = boss_code and env = admins_boss and e = "''boss@x.com''" and c = "''123456''"
      and later = "minutes 10"]
  from t [where now = "minutes 10"] h1 h2 h3
  have c1: "fst (verify_otp admins_boss ten_minutes (minutes 10) boss_code office) = Redirect ''uploads.gallery''"
    by simp
  from t [where now = "minutes 10"] h1 h2 h4'
  have "otps (snd (verify_otp admins_boss ten_minutes (minutes 10) boss_code office)) =
        map (\<lambda>d. if otp_email d = ''boss@x.com'' \<and> otp_code d = otp_code_data boss_code
                  then d\<lparr>used := True\<rparr> else d) (otps office)"
    by simp
  with m have c1': "otps (snd (verify_otp admins_boss ten_minutes (minutes 10) boss_code office)) =
        [\<lparr>otp_email = ''boss@x.com'', otp_code = ''123456'', otp_created_at = 0, used = True\<rparr>]"
    by simp
  from t [where now = "minutes 10"] h4
  have c2: "\<not> find_valid ten_minutes (minutes 10) ''boss@x.com'' ''123456''
         (mark_used ''boss@x.com'' ''123456'' office)"
    by blast
  from t [where now = "minutes 10 + 1"] h5'
  have c3: "\<not> find_valid ten_minutes (minutes 10 + 1) ''boss@x.com'' ''123456'' office"
    by blast
  from h1 h2 h3 h4 h5 c1 c1' c2 c3 show ?thesis by simp
qed

section \<open>Registration\<close>

lemma find_by_email_normalize: "find_by_email (lower (strip e)) w = find_by_email e w"
  by (simp add: find_by_email_def normalize_idem)

lemma DataRequired_normalized: "DataRequired s \<Longrightarrow> lower (strip s) \<noteq> []"
  by (simp add: DataRequired_def lower_Nil_iff)

lemma proceeds_not_verified:
  "proceeds req w \<Longrightarrow> find_by_email (form_email req) w = Some u \<Longrightarrow> \<not> is_verified u"
  by (simp add: proceeds_def RegisterForm_validate_def validate_email_def find_by_email_normalize)

lemma proceeds_branch:
  assumes "proceeds req w"
  shows "(case find_by_email (lower (strip (form_email req))) w of
            Some u \<Rightarrow> is_verified u | None \<Rightarrow> False) = False"
  using assms proceeds_not_verified [OF assms]
  by (auto simp: find_by_email_normalize split: option.splits)

lemma send_otp_email_fields:
  "users (snd (send_otp_email cfg req e w)) = users w"
  "otps (snd (send_otp_email cfg req e w)) = otps w"
  "session_pending_email (snd (send_otp_email cfg req e w)) = session_pending_email w"
  "flashes (snd (send_otp_email cfg req e w)) = flashes w"
  "effects (snd (send_otp_email cfg req e w)) =
     effects w @ (if credentials_configured cfg
                  then MailSend e # (if mail_send_ok req then [] else [SmtpSend e])
                  else [])"
  by (simp_all add: send_otp_email_def send_email_direct_smtp_def record_effect_def Let_def
        credentials_configured_def case_prod_beta)

lemma OTP_create_fields:
  "users (OTP_create now e c w) = users w"
  "otps (OTP_create now e c w) =
     otps w @ [\<lparr>otp_email = e, otp_code = c, otp_created_at = now, used = False\<rparr>]"
  "effects (OTP_create now e c w) = effects w @ [DbInsertOtp e c]"
  "flashes (OTP_create now e c w) = flashes w"
  by (simp_all add: OTP_create_def record_effect_def)

lemma create_fields:
  "otps (snd (create env lib now e pw r g w)) = otps w"
  "users (snd (create env lib now e pw r g w)) =
     users w @ [\<lparr>uid = next_id w, email = lower (strip e),
                  password_hash = (if truthy pw then Some (hashpw lib (the pw)) else None),
                  stored_role = (case r of
                                   None \<Rightarrow> if is_admin_email env (lower (strip e)) then ''admin'' else ''user''
                                 | Some given \<Rightarrow> given),
                  is_verified = (\<not> truthy pw), google_id = g, created_at = now\<rparr>]"
  "flashes (snd (create env lib now e pw r g w)) = flashes w"
  by (simp_all add: create_def users_insert_one_def record_effect_def Let_def)

lemma store_registration_fields:
  "otps (store_registration env lib now req e ex w) = otps w"
  "flashes (store_registration env lib now req e ex w) = flashes w"
  by (simp_all add: store_registration_def create_fields users_update_one_def record_effect_def
        Let_def split: option.splits)

lemma register_proceeds:
  assumes "proceeds req w"
  shows "register env cfg lib now req w =
     (let e = lower (strip (form_email req));
          w1 = store_registration env lib now req e (find_by_email e w) w;
          w2 = OTP_create now e (generated_otp req) w1;
          sent = fst (send_otp_email cfg req e w2);
          w3 = (snd (send_otp_email cfg req e w2))\<lparr>session_pending_email := Some e\<rparr>
      in (Redirect ''auth.verify_otp'',
          if sent \<and> credentials_configured cfg
          then flash ''OTP has been sent to your email. Please verify your email.'' ''success'' w3
          else flash ''Failed to send OTP email. Please configure email settings or contact administrator.''
                 ''error'' w3))"
  using assms proceeds_branch [OF assms]
  by (simp add: register_def proceeds_def Let_def case_prod_beta)

lemma find_valid_fresh:
  assumes "0 \<le> OTP_EXPIRY_MINUTES cfg"
    "\<lparr>otp_email = e, otp_code = c, otp_created_at = now, used = False\<rparr> \<in> set (otps w)"
  shows "find_valid cfg now e c w"
  unfolding find_valid_iff using assms
  by (intro bexI [where x = "\<lparr>otp_email = e, otp_code = c, otp_created_at = now, used = False\<rparr>"])
     (simp_all add: minutes_def)

lemma register_issues:
  assumes "proceeds req w"
  shows "fst (register env cfg lib now req w) = Redirect ''auth.verify_otp''"
    "otps (snd (register env cfg lib now req w)) =
       otps w @ [\<lparr>otp_email = lower (strip (form_email req)), otp_code = generated_otp req,
                   otp_created_at = now, used = False\<rparr>]"
    "session_pending_email (snd (register env cfg lib now req w)) = Some (lower (strip (form_email req)))"
    "users (snd (register env cfg lib now req w)) =
       users (store_registration env lib now req (lower (strip (form_email req)))
                (find_by_email (form_email req) w) w)"
    "effects (snd (register env cfg lib now req w)) =
       effects (store_registration env lib now req (lower (strip (form_email req)))
                  (find_by_email (form_email req) w) w)
       @ DbInsertOtp (lower (strip (form_email req))) (generated_otp req)
       # (if credentials_configured cfg
          then MailSend (lower (strip (form_email req)))
               # (if mail_send_ok req then [] else [SmtpSend (lower (strip (form_email req)))])
          else [])"
  by (simp_all add: register_proceeds [OF assms] Let_def flash_def send_otp_email_fields
        OTP_create_fields store_registration_fields find_by_email_normalize)

lemma send_otp_email_sent:
  "fst (send_otp_email cfg req e w) =
     (credentials_configured cfg \<and> (mail_send_ok req \<or> smtp_send_ok req))"
  by (auto simp: send_otp_email_def send_email_direct_smtp_def Let_def credentials_configured_def
        case_prod_beta)

lemma register_flashes:
  assumes "proceeds req w"
  shows "flashes (snd (register env cfg lib now req w)) =
       flashes w @
       [if credentials_configured cfg \<and> (mail_send_ok req \<or> smtp_send_ok req)
        then (''OTP has been sent to your email. Please verify your email.'', ''success'')
        else (''Failed to send OTP email. Please configure email settings or contact administrator.'',
              ''error'')]"
  by (simp add: register_proceeds [OF assms] Let_def flash_def send_otp_email_fields
        send_otp_email_sent OTP_create_fields store_registration_fields)

text \<open>
  C9, as the claim states it, fails: with the expiry window configured as \<open>- 1\<close>, a
  registration whose delivery fails still stores the new code, but the code is not
  valid, not even at the moment it is issued.
\<close>

theorem delivery_failure_negative_window_counterexample:
  "OTP_EXPIRY_MINUTES negative_window = - 1
   \<and> proceeds dave_registers office
   \<and> \<not> mail_send_ok dave_registers \<and> \<not> smtp_send_ok dave_registers
   \<and> otps (snd (register admins_boss negative_window toy_bcrypt 7000 dave_registers office)) =
        otps office @ [\<lparr>otp_email = ''dave@x.com'', otp_code = ''654321'', otp_created_at = 7000,
                         used = False\<rparr>]
   \<and> \<not> find_valid negative_window 7000 ''dave@x.com'' ''654321''
         (snd (register admins_boss negative_window toy_bcrypt 7000 dave_registers office))"
  by code_simp

text \<open>
  C9, amended. A registration that goes through stores the new one-time code before any
  delivery is attempted (in the record of effects the insertion of the code comes first,
  the mail attempts after it), and what it stores does not depend on the delivery: the
  code is issued and, when the configured expiry window is not negative, valid; the
  pending email is carried in the session, the response leads to the verification step,
  and when delivery fails the visitor is told so by an error message.
\<close>

theorem delivery_failure_keeps_code:
  "proceeds req w \<longrightarrow>
     (let e = lower (strip (form_email req));
          stored = store_registration env lib now req e (find_by_email (form_email req) w) w;
          w' = snd (register env cfg lib now req w)
      in fst (register env cfg lib now req w) = Redirect ''auth.verify_otp''
         \<and> users w' = users stored
         \<and> otps w' = otps w @ [\<lparr>otp_email = e, otp_code = generated_otp req,
                                   otp_created_at = now, used = False\<rparr>]
         \<and> effects w' =
             effects stored @ DbInsertOtp e (generated_otp req)
             # (if credentials_configured cfg
                then MailSend e # (if mail_send_ok req then [] else [SmtpSend e])
                else [])
         \<and> session_pending_email w' = Some e
         \<and> (0 \<le> OTP_EXPIRY_MINUTES cfg \<longrightarrow> find_valid cfg now e (generated_otp req) w')
         \<and> (\<not> (credentials_configured cfg \<and> (mail_send_ok req \<or> smtp_send_ok req)) \<longrightarrow>
              flashes w' =
                flashes w @
                [(''Failed to send OTP email. Please configure email settings or contact administrator.'',
                  ''error'')]))"
proof
  assume p: "proceeds req w"
  have valid: "find_valid cfg now (lower (strip (form_email req))) (generated_otp req)
                 (snd (register env cfg lib now req w))"
    if "0 \<le> OTP_EXPIRY_MINUTES cfg"
    using that by (rule find_valid_fresh) (simp add: register_issues [OF p])
  show "let e = lower (strip (form_email req));
          stored = store_registration env lib now req e (find_by_email (form_email req) w) w;
          w' = snd (register env cfg lib now req w)
      in fst (register env cfg lib now req w) = Redirect ''auth.verify_otp''
         \<and> users w' = users stored
         \<and> otps w' = otps w @ [\<lparr>otp_email = e, otp_code = generated_otp req,
                                   otp_created_at = now, used = False\<rparr>]
         \<and> effects w' =
             effects stored @ DbInsertOtp e (generated_otp req)
             # (if credentials_configured cfg
                then MailSend e # (if mail_send_ok req then [] else [SmtpSend e])
                else [])
         \<and> session_pending_email w' = Some e
         \<and> (0 \<le> OTP_EXPIRY_MINUTES cfg \<longrightarrow> find_valid cfg now e (generated_otp req) w')
         \<and> (\<not> (credentials_configured cfg \<and> (mail_send_ok req \<or> smtp_send_ok req)) \<longrightarrow>
              flashes w' =
                flashes w @
                [(''Failed to send OTP email. Please configure email settings or contact administrator.'',
                  ''error'')])"
    unfolding Let_def
    using valid by (simp add: register_issues [OF p] register_flashes [OF p])
qed

theorem delivery_failure_keeps_code_witness:
  "proceeds dave_registers office \<and> 0 \<le> OTP_EXPIRY_MINUTES ten_minutes
   \<and> \<not> (credentials_configured ten_minutes
          \<and> (mail_send_ok dave_registers \<or> smtp_send_ok dave_registers))
   \<and> fst (register admins_boss ten_minutes toy_bcrypt 7000 dave_registers office)
       = Redirect ''auth.verify_otp''
   \<and> find_valid ten_minutes 7000 ''dave@x.com'' ''654321''
        (snd (register admins_boss ten_minutes toy_bcrypt 7000 dave_registers office))
   \<and> session_pending_email (snd (register admins_boss ten_minutes toy_bcrypt 7000 dave_registers office))
       = Some ''dave@x.com''
   \<and> flashes (snd (register admins_boss ten_minutes toy_bcrypt 7000 dave_registers office)) =
        [(''Failed to send OTP email. Please configure email settings or contact administrator.'',
          ''error'')]"
proof -
  have h1: "proceeds dave_registers office" by code_simp
  have h2: "0 \<le> OTP_EXPIRY_MINUTES ten_minutes" by code_simp
  have h3: "\<not> (credentials_configured ten_minutes
          \<and> (mail_send_ok dave_registers \<or> smtp_send_ok dave_registers))" by code_simp
  have e: "lower (strip (form_email dave_registers)) = ''dave@x.com''" by code_simp
  have g: "generated_otp dave_registers = ''654321''" by code_simp
  have f: "flashes office = []" by code_simp
  from delivery_failure_keeps_code [of dave_registers office admins_boss toy_bcrypt 7000 ten_minutes]
    h1 h2 h3
  have "fst (register admins_boss ten_minutes toy_bcrypt 7000 dave_registers office)
       = Redirect ''auth.verify_otp''
   \<and> find_valid ten_minutes 7000 ''dave@x.com'' ''654321''
        (snd (register admins_boss ten_minutes toy_bcrypt 7000 dave_registers office))
   \<and> session_pending_email (snd (register admins_boss ten_minutes toy_bcrypt 7000 dave_registers office))
       = Some ''dave@x.com''
   \<and> flashes (snd (register admins_boss ten_minutes toy_bcrypt 7000 dave_registers office)) =
        [(''Failed to send OTP email. Please configure email settings or contact administrator.'',
          ''error'')]"
    unfolding Let_def e g f by simp
  with h1 h2 h3 show ?thesis by simp
qed

lemma register_rejects_verified:
  assumes "find_by_email (form_email req) w = Some u" "is_verified u"
  shows "snd (register env cfg lib now req w) = w"
    "fst (register env cfg lib now req w) \<noteq> Redirect ''auth.verify_otp''"
  using assms
  by (simp_all add: register_def RegisterForm_validate_def validate_email_def
        find_by_email_normalize)

lemma length_update_first: "length (update_first P f xs) = length xs"
  by (induction xs) auto

lemma map_update_first_same:
  "(\<And>x. g (f x) = g x) \<Longrightarrow> map g (update_first P f xs) = map g xs"
  by (induction xs) auto

lemma find_snoc:
  "find P (xs @ [y]) = (case find P xs of None \<Rightarrow> (if P y then Some y else None) | Some x \<Rightarrow> Some x)"
  by (induction xs) auto

lemma find_update_first_keeps:
  assumes "\<And>x. email (f x) = email x" "\<And>x. is_verified (f x) = is_verified x"
  shows "map_option is_verified (find (\<lambda>d. email d = e) (update_first Q f xs)) =
         map_option is_verified (find (\<lambda>d. email d = e) xs)"
  by (induction xs) (auto simp: assms)

lemma store_registration_existing:
  assumes "find_by_email e w = Some u" "\<not> is_verified u"
  shows "users (store_registration env lib now req e (find_by_email e w) w) =
     update_first (\<lambda>d. uid d = uid u)
       (\<lambda>d. d\<lparr>password_hash := Some (hashpw lib (form_password req)),
              stored_role := (if is_admin_email env e then ''admin'' else ''user'')\<rparr>)
       (users w)"
  using assms
  by (simp add: store_registration_def users_update_one_def record_effect_def Let_def)

lemma store_registration_new:
  assumes "find_by_email e w = None"
  shows "users (store_registration env lib now req e (find_by_email e w) w) =
     users w @ [\<lparr>uid = next_id w, email = lower (strip e),
                  password_hash = (if form_password req \<noteq> [] then Some (hashpw lib (form_password req))
                                   else None),
                  stored_role = (if is_admin_email env (lower (strip e)) then ''admin'' else ''user''),
                  is_verified = (form_password req = []), google_id = None, created_at = now\<rparr>]"
  using assms by (simp add: store_registration_def create_fields truthy_def)

lemma find_by_email_verified_flag:
  "map_option is_verified (find_by_email e w) =
     (if lower (strip e) = [] then None
      else map_option is_verified (find (\<lambda>d. email d = lower (strip e)) (users w)))"
  by (simp add: find_by_email_def Let_def User_fields split: option.splits)

lemma unverified_after_registration:
  assumes p: "proceeds req w"
  shows "map_option is_verified
           (find_by_email (form_email req) (snd (register env cfg lib now req w))) = Some False"
proof -
  define e where "e = lower (strip (form_email req))"
  have ne: "e \<noteq> []" and pw: "form_password req \<noteq> []"
    using p by (simp_all add: e_def proceeds_def RegisterForm_validate_def DataRequired_def lower_Nil_iff)
  have n: "lower (strip e) = e" by (simp add: e_def normalize_idem)
  have fe: "find_by_email (form_email req) w = find_by_email e w"
    by (simp add: e_def find_by_email_normalize)
  have us: "users (snd (register env cfg lib now req w)) =
       users (store_registration env lib now req e (find_by_email e w) w)"
    by (simp add: register_issues [OF p] e_def find_by_email_normalize)
  show ?thesis
  proof (cases "find_by_email e w")
    case None
    then have "find (\<lambda>d. email d = e) (users w) = None"
      using ne n by (simp add: find_by_email_def split: option.splits)
    then show ?thesis
      using pw ne n
      by (simp add: find_by_email_verified_flag us store_registration_new [OF None]
            find_snoc e_def [symmetric] normalize_idem)
  next
    case (Some u)
    then have nv: "\<not> is_verified u" using proceeds_not_verified [OF p] fe by simp
    have "map_option is_verified (find_by_email e w) = Some False" using Some nv by simp
    then show ?thesis
      using ne n
      by (simp add: find_by_email_verified_flag us store_registration_existing [OF Some nv]
            find_update_first_keeps e_def [symmetric] normalize_idem)
  qed
qed

lemma register_on_existing:
  assumes p: "proceeds req w" and f: "find_by_email (form_email req) w = Some u"
  shows "\<not> is_verified u"
    "users (snd (register env cfg lib now req w)) =
       update_first (\<lambda>d. uid d = uid u)
         (\<lambda>d. d\<lparr>password_hash := Some (hashpw lib (form_password req)),
                stored_role := (if is_admin_email env (form_email req) then ''admin'' else ''user'')\<rparr>)
         (users w)"
proof -
  show nv: "\<not> is_verified u" using p f by (rule proceeds_not_verified)
  have f': "find_by_email (lower (strip (form_email req))) w = Some u"
    using f by (simp add: find_by_email_normalize)
  show "users (snd (register env cfg lib now req w)) =
       update_first (\<lambda>d. uid d = uid u)
         (\<lambda>d. d\<lparr>password_hash := Some (hashpw lib (form_password req)),
                stored_role := (if is_admin_email env (form_email req) then ''admin'' else ''user'')\<rparr>)
         (users w)"
    using store_registration_existing [OF f' nv, of env lib now req]
    by (simp add: register_issues [OF p] find_by_email_normalize is_admin_email_normalize)
qed

lemma register_again:
  assumes p: "proceeds req w" and f: "find_by_email (form_email req) w = Some u"
  shows "length (users (snd (register env cfg lib now req w))) = length (users w)"
    "map email (users (snd (register env cfg lib now req w))) = map email (users w)"
    "map uid (users (snd (register env cfg lib now req w))) = map uid (users w)"
  by (simp_all add: register_on_existing [OF p f] length_update_first map_update_first_same)

text \<open>
  C6, as the claim states it, fails: with the expiry window configured as \<open>- 1\<close>, a
  second registration of the unverified \<open>dave\<close> adds no identity and stores a new code,
  but the new code is not valid.
\<close>

theorem register_negative_window_counterexample:
  "OTP_EXPIRY_MINUTES negative_window = - 1
   \<and> dave_pending = snd (register admins_boss negative_window toy_bcrypt 7000 dave_registers office)
   \<and> proceeds dave_again dave_pending
   \<and> map_option is_verified (find_by_email (form_email dave_again) dave_pending) = Some False
   \<and> length (users (snd (register admins_boss negative_window toy_bcrypt 9000 dave_again dave_pending)))
       = length (users dave_pending)
   \<and> otps (snd (register admins_boss negative_window toy_bcrypt 9000 dave_again dave_pending)) =
        otps dave_pending @ [\<lparr>otp_email = ''dave@x.com'', otp_code = ''777777'',
                               otp_created_at = 9000, used = False\<rparr>]
   \<and> \<not> find_valid negative_window 9000 ''dave@x.com'' ''777777''
         (snd (register admins_boss negative_window toy_bcrypt 9000 dave_again dave_pending))"
  by code_simp

text \<open>
  C6, amended. Registration is idempotent for an unverified identity. A registration
  that goes through for an email that already has an identity finds the identity
  unverified, adds no identity (the stored emails and identifiers stay as they are) and
  appends a new one-time code, which is valid at once when the configured expiry window
  is not negative. After any registration that goes through, the email has an unverified
  identity, so a second registration of the same email adds no identity and again
  issues a new code, valid under the same condition. A registration for an email whose
  identity is verified is rejected and changes nothing: no identity and no code is
  created.
\<close>

theorem register_idempotent_unverified:
  "(proceeds req w \<and> find_by_email (form_email req) w = Some u \<longrightarrow>
      (let w' = snd (register env cfg lib now req w);
           e = lower (strip (form_email req))
       in \<not> is_verified u
          \<and> length (users w') = length (users w)
          \<and> map email (users w') = map email (users w)
          \<and> map uid (users w') = map uid (users w)
          \<and> otps w' = otps w @ [\<lparr>otp_email = e, otp_code = generated_otp req,
                                    otp_created_at = now, used = False\<rparr>]
          \<and> (0 \<le> OTP_EXPIRY_MINUTES cfg \<longrightarrow> find_valid cfg now e (generated_otp req) w')))
   \<and> (proceeds req w \<longrightarrow>
        map_option is_verified
          (find_by_email (form_email req) (snd (register env cfg lib now req w))) = Some False)
   \<and> (proceeds req w \<and> proceeds req2 (snd (register env cfg lib now req w))
        \<and> lower (strip (form_email req2)) = lower (strip (form_email req)) \<longrightarrow>
      (let w1 = snd (register env cfg lib now req w);
           w2 = snd (register env2 cfg2 lib2 now2 req2 w1);
           e = lower (strip (form_email req))
       in length (users w2) = length (users w1)
          \<and> map email (users w2) = map email (users w1)
          \<and> otps w2 = otps w1 @ [\<lparr>otp_email = e, otp_code = generated_otp req2,
                                     otp_created_at = now2, used = False\<rparr>]
          \<and> (0 \<le> OTP_EXPIRY_MINUTES cfg2 \<longrightarrow> find_valid cfg2 now2 e (generated_otp req2) w2)))
   \<and> (find_by_email (form_email req) w = Some u \<and> is_verified u \<longrightarrow>
        snd (register env cfg lib now req w) = w
        \<and> fst (register env cfg lib now req w) \<noteq> Redirect ''auth.verify_otp'')"
proof (intro conjI impI)
  assume h: "proceeds req w \<and> find_by_email (form_email req) w = Some u"
  then have p: "proceeds req w" and f: "find_by_email (form_email req) w = Some u" by simp_all
  have valid: "find_valid cfg now (lower (strip (form_email req))) (generated_otp req)
                 (snd (register env cfg lib now req w))"
    if "0 \<le> OTP_EXPIRY_MINUTES cfg"
    using that by (rule find_valid_fresh) (simp add: register_issues [OF p])
  show "let w' = snd (register env cfg lib now req w);
           e = lower (strip (form_email req))
       in \<not> is_verified u
          \<and> length (users w') = length (users w)
          \<and> map email (users w') = map email (users w)
          \<and> map uid (users w') = map uid (users w)
          \<and> otps w' = otps w @ [\<lparr>otp_email = e, otp_code = generated_otp req,
                                    otp_created_at = now, used = False\<rparr>]
          \<and> (0 \<le> OTP_EXPIRY_MINUTES cfg \<longrightarrow> find_valid cfg now e (generated_otp req) w')"
    unfolding Let_def
    using valid register_on_existing(1) [OF p f]
    by (simp add: register_again [OF p f] register_issues(2) [OF p])
next
  assume "proceeds req w"
  then show "map_option is_verified
          (find_by_email (form_email req) (snd (register env cfg lib now req w))) = Some False"
    by (rule unverified_after_registration)
next
  assume h: "proceeds req w \<and> proceeds req2 (snd (register env cfg lib now req w))
        \<and> lower (strip (form_email req2)) = lower (strip (form_email req))"
  define w1 where "w1 = snd (register env cfg lib now req w)"
  from h have p: "proceeds req w" and p2: "proceeds req2 w1"
    and e: "lower (strip (form_email req2)) = lower (strip (form_email req))"
    by (simp_all add: w1_def)
  from p have "map_option is_verified (find_by_email (form_email req) w1) = Some False"
    unfolding w1_def by (rule unverified_after_registration)
  then obtain u1 where "find_by_email (form_email req) w1 = Some u1" by auto
  then have f2: "find_by_email (form_email req2) w1 = Some u1"
    using e find_by_email_normalize [of "form_email req2" w1]
      find_by_email_normalize [of "form_email req" w1] by simp
  have valid: "find_valid cfg2 now2 (lower (strip (form_email req2))) (generated_otp req2)
                 (snd (register env2 cfg2 lib2 now2 req2 w1))"
    if "0 \<le> OTP_EXPIRY_MINUTES cfg2"
    using that by (rule find_valid_fresh) (simp add: register_issues [OF p2])
  have "length (users (snd (register env2 cfg2 lib2 now2 req2 w1))) = length (users w1)
          \<and> map email (users (snd (register env2 cfg2 lib2 now2 req2 w1))) = map email (users w1)
          \<and> otps (snd (register env2 cfg2 lib2 now2 req2 w1)) =
              otps w1 @ [\<lparr>otp_email = lower (strip (form_email req)), otp_code = generated_otp req2,
                           otp_created_at = now2, used = False\<rparr>]
          \<and> (0 \<le> OTP_EXPIRY_MINUTES cfg2 \<longrightarrow>
                find_valid cfg2 now2 (lower (strip (form_email req))) (generated_otp req2)
                  (snd (register env2 cfg2 lib2 now2 req2 w1)))"
    using valid by (simp add: register_again [OF p2 f2] register_issues(2) [OF p2] e)
  then show "let w1 = snd (register env cfg lib now req w);
           w2 = snd (register env2 cfg2 lib2 now2 req2 w1);
           e = lower (strip (form_email req))
       in length (users w2) = length (users w1)
          \<and> map email (users w2) = map email (users w1)
          \<and> otps w2 = otps w1 @ [\<lparr>otp_email = e, otp_code = generated_otp req2,
                                     otp_created_at = now2, used = False\<rparr>]
          \<and> (0 \<le> OTP_EXPIRY_MINUTES cfg2 \<longrightarrow> find_valid cfg2 now2 e (generated_otp req2) w2)"
    unfolding Let_def w1_def by simp
next
  assume h: "find_by_email (form_email req) w = Some u \<and> is_verified u"
  then show "snd (register env cfg lib now req w) = w"
    by (simp add: register_rejects_verified)
  from h show "fst (register env cfg lib now req w) \<noteq> Redirect ''auth.verify_otp''"
    by (simp add: register_rejects_verified)
qed

theorem register_idempotent_unverified_witness:
  "(proceeds dave_registers office \<and> proceeds dave_again dave_pending
      \<and> lower (strip (form_email dave_again)) = lower (strip (form_email dave_registers))
      \<and> 0 \<le> OTP_EXPIRY_MINUTES ten_minutes)
   \<and> find_by_email (form_email dave_again) dave_pending =
        Some \<lparr>uid = 3, email = ''dave@x.com'', password_hash = Some ''h:secret4'',
              stored_role = ''user'', is_verified = False, google_id = None, created_at = 7000\<rparr>
   \<and> length (users (snd (register Map.empty ten_minutes toy_bcrypt 9000 dave_again dave_pending)))
        = length (users dave_pending)
   \<and> find_valid ten_minutes 9000 ''dave@x.com'' ''777777''
        (snd (register Map.empty ten_minutes toy_bcrypt 9000 dave_again dave_pending))
   \<and> (find_by_email (form_email boss_registers) office = Some boss \<and> is_verified boss)
   \<and> snd (register Map.empty ten_minutes toy_bcrypt 9000 boss_registers office) = office"
proof -
  have h1: "proceeds dave_registers office \<and> proceeds dave_again dave_pending
      \<and> lower (strip (form_email dave_again)) = lower (strip (form_email dave_registers))
      \<and> 0 \<le> OTP_EXPIRY_MINUTES ten_minutes"
    by code_simp
  have h2: "find_by_email (form_email dave_again) dave_pending =
        Some \<lparr>uid = 3, email = ''dave@x.com'', password_hash = Some ''h:secret4'',
              stored_role = ''user'', is_verified = False, google_id = None, created_at = 7000\<rparr>"
    by code_simp
  have h3: "find_by_email (form_email boss_registers) office = Some boss \<and> is_verified boss"
    by code_simp
  have e: "lower (strip (form_email dave_again)) = ''dave@x.com''"
    and g: "generated_otp dave_again = ''777777''"
    by code_simp+
  from register_idempotent_unverified [where req = dave_again and w = dave_pending
      and cfg = ten_minutes and env = Map.empty and lib = toy_bcrypt and now = 9000
      and u = "\<lparr>uid = 3, email = ''dave@x.com'', password_hash = Some ''h:secret4'',
              stored_role = ''user'', is_verified = False, google_id = None, created_at = 7000\<rparr>"]
    h1 h2
  have c1: "length (users (snd (register Map.empty ten_minutes toy_bcrypt 9000 dave_again dave_pending)))
        = length (users dave_pending)
      \<and> find_valid ten_minutes 9000 ''dave@x.com'' ''777777''
        (snd (register Map.empty ten_minutes toy_bcrypt 9000 dave_again dave_pending))"
    unfolding Let_def e g by simp
  from register_idempotent_unverified [where req = boss_registers and w = office
      and cfg = ten_minutes and env = Map.empty and lib = toy_bcrypt and now = 9000 and u = boss] h3
  have c2: "snd (register Map.empty ten_minutes toy_bcrypt 9000 boss_registers office) = office"
    by blast
  from h1 h2 h3 c1 c2 show ?thesis by simp
qed

section \<open>Who writes the stored role\<close>

lemma register_stops:
  assumes "\<not> proceeds req w"
  shows "users (snd (register env cfg lib now req w)) = users w"
    "otps (snd (register env cfg lib now req w)) = otps w"
  using assms by (auto simp: register_def proceeds_def)

lemma users_login_user: "users (login_user u w) = users w"
  by (simp add: login_user_def)

lemma users_flash: "users (flash m c w) = users w"
  by (simp add: flash_def)

lemma roles_verify:
  "map stored_role (users (snd (verify u w))) = map stored_role (users w)"
  by (simp add: verify_fields map_update_first_same)

lemma take_users_create:
  "take (length (users w)) (users (snd (create env lib now e pw r g w))) = users w"
  by (simp add: create_fields)

lemma uid_create: "uid (fst (create env lib now e pw r g w)) = next_id w"
  by (simp add: create_def users_insert_one_def Let_def User_fields)

lemma take_map_update_first:
  "(\<And>x. g (f x) = g x) \<Longrightarrow> map g (take n (update_first P f xs)) = map g (take n xs)"
  by (simp add: map_update_first_same flip: take_map)

lemma roles_create_verify:
  "map stored_role (take (length (users w))
      (users (snd (verify (fst (create env lib now e pw r g w)) (snd (create env lib now e pw r g w))))))
   = map stored_role (users w)"
  by (simp add: verify_fields take_map_update_first take_users_create)

lemma take_update_first_all:
  "take (length xs) (update_first P f xs) = update_first P f xs"
  by (simp add: length_update_first)

lemma take_users_verify:
  "take (length (users w)) (users (snd (verify u w))) = users (snd (verify u w))"
  by (simp add: verify_fields take_update_first_all)

lemma roles_logout: "users (snd (logout w)) = users w"
  by (simp add: logout_def logout_user_def flash_def split: actor.splits)

lemma roles_create_admin_user:
  "map stored_role (take (length (users w)) (users (snd (create_admin_user env lib now e pw w))))
   = map stored_role (users w)"
  by (simp add: create_admin_user_def case_prod_beta roles_create_verify roles_verify
        take_users_verify split: option.splits)

lemma roles_seed_database:
  "map stored_role (take (length (users w)) (users (seed_database env lib now w)))
   = map stored_role (users w)"
  by (simp add: seed_database_def case_prod_beta roles_create_verify Let_def split: option.splits)

lemma roles_register_new:
  assumes "find_by_email (form_email req) w = None"
  shows "take (length (users w)) (users (snd (register env cfg lib now req w))) = users w"
proof (cases "proceeds req w")
  case True
  have "find_by_email (lower (strip (form_email req))) w = None"
    using assms by (simp add: find_by_email_normalize)
  from store_registration_new [OF this, of env lib now req] show ?thesis
    by (simp add: register_issues [OF True] find_by_email_normalize)
next
  case False
  then show ?thesis by (simp add: register_stops)
qed

lemma login_users:
  "users (snd (login env lib req w)) = users w
   \<or> (\<exists>u. find_by_email (login_email req) w = Some u
          \<and> users (snd (login env lib req w)) = users (snd (snd (reconcile env (email u) u w))))"
  by (auto simp: login_def Let_def case_prod_beta users_flash users_login_user
        split: option.splits)

lemma verify_otp_roles:
  "map stored_role (users (snd (verify_otp env cfg now req w))) = map stored_role (users w)
   \<or> (\<exists>p u. session_pending_email w = Some p \<and> find_by_email p w = Some u
          \<and> map stored_role (users (snd (verify_otp env cfg now req w))) =
              map stored_role
                (users (snd (snd (reconcile env (email u) u (mark_used p (otp_code_data req) w))))))"
proof (cases "\<not> is_authenticated (current_user_of w) \<and> truthy (session_pending_email w)
    \<and> verify_submitted req \<and> OTPVerifyForm_validate req
    \<and> find_valid cfg now (the (session_pending_email w)) (otp_code_data req) w
    \<and> find_by_email (the (session_pending_email w)) w \<noteq> None")
  case True
  then obtain p u where p: "session_pending_email w = Some p" "p \<noteq> []"
    and u: "find_by_email p w = Some u"
    by (auto simp: truthy_def split: option.splits)
  from True p u have "users (snd (verify_otp env cfg now req w)) =
      users (snd (verify (fst (snd (reconcile env (email u) u (mark_used p (otp_code_data req) w))))
                    (snd (snd (reconcile env (email u) u (mark_used p (otp_code_data req) w))))))"
    by (simp add: verify_otp_success Let_def users_flash users_login_user)
  then show ?thesis using p u by (simp add: roles_verify)
next
  case False
  then have "users (snd (verify_otp env cfg now req w)) = users w"
    by (auto simp: verify_otp_def Let_def users_flash users_mark_used find_by_email_mark_used
          split: option.splits)
  then show ?thesis by simp
qed

lemma roles_find_or_create:
  "map stored_role (take (length (users w)) (users (snd (find_or_create_user_google env lib now info w))))
   = map stored_role (users w)"
  by (simp add: find_or_create_user_google_def Let_def take_users_create users_update_one_def
        record_effect_def map_update_first_same take_update_first_all split: option.splits)

lemma google_callback_users:
  "users (snd (google_callback env lib now (Some info) w)) =
     users (snd (snd (reconcile env (email (fst (find_or_create_user_google env lib now info w)))
                        (fst (find_or_create_user_google env lib now info w))
                        (snd (find_or_create_user_google env lib now info w)))))"
  "users (snd (google_callback env lib now None w)) = users w"
  by (simp_all add: google_callback_success Let_def users_flash users_login_user)
     (simp add: google_callback_def users_flash)

text \<open>
  C4, as the claim states it, fails: \<open>dave\<close> is registered and unverified with stored
  role \<^verbatim>\<open>'user'\<close>; his email is then put on the allow-list and he registers again.
  The registration rewrites his stored role to \<^verbatim>\<open>'admin'\<close>.
\<close>

theorem register_rewrites_role_counterexample:
  "proceeds dave_again dave_pending
   \<and> map_option is_verified (find_by_email (form_email dave_again) dave_pending) = Some False
   \<and> map stored_role (users dave_pending) = [''user'', ''user'', ''admin'', ''user'']
   \<and> map stored_role (users (snd (register admins_dave ten_minutes toy_bcrypt 9000 dave_again
                                      dave_pending)))
       = [''user'', ''user'', ''admin'', ''admin'']"
  by code_simp

text \<open>
  C4, amended. The stored role of an identity is written by the role block of the
  three authenticating routes, by the creation of the identity (from the allow-list,
  or from the role given explicitly, as the administrative scripts do), and by
  \<^verbatim>\<open>register\<close> on an existing unverified identity, which sets the credential and sets
  the stored role to \<^verbatim>\<open>'admin'\<close> if the email is on the allow-list and to \<^verbatim>\<open>'user'\<close>
  otherwise, leaving every other field and every other identity as it is. Nothing else
  writes it: a registration that stops or that creates the identity, a failed federated
  login, a logout and the administrative scripts leave the stored roles of the
  identities that exist; \<^verbatim>\<open>login\<close> leaves the identities as they are or as the role
  block leaves them; \<^verbatim>\<open>verify_otp\<close> leaves the stored roles as they are or as the role
  block leaves them; \<^verbatim>\<open>google_callback\<close> leaves the identities as the role block leaves
  them after \<^verbatim>\<open>find_or_create_user_google\<close>, which keeps the stored roles that exist.
\<close>

theorem stored_role_writers:
  "(proceeds req w \<and> find_by_email (form_email req) w = Some u \<longrightarrow>
      users (snd (register env cfg lib now req w)) =
        update_first (\<lambda>d. uid d = uid u)
          (\<lambda>d. d\<lparr>password_hash := Some (hashpw lib (form_password req)),
                 stored_role := (if is_admin_email env (form_email req) then ''admin'' else ''user'')\<rparr>)
          (users w))
   \<and> ((case ev of
          Register r \<Rightarrow> find_by_email (form_email r) w = None \<or> \<not> proceeds r w
        | Login r \<Rightarrow> False
        | VerifyOtp r \<Rightarrow> False
        | GoogleCallback t \<Rightarrow> t = None
        | Logout \<Rightarrow> True
        | CreateAdminUser e p \<Rightarrow> True
        | SeedDatabase \<Rightarrow> True) \<longrightarrow>
       map stored_role (take (length (users w)) (users (step env cfg lib now ev w)))
         = map stored_role (users w))
   \<and> (users (snd (login env lib lreq w)) = users w
       \<or> (\<exists>lu. find_by_email (login_email lreq) w = Some lu
              \<and> users (snd (login env lib lreq w)) = users (snd (snd (reconcile env (email lu) lu w)))))
   \<and> (map stored_role (users (snd (verify_otp env cfg now vreq w))) = map stored_role (users w)
       \<or> (\<exists>p vu. session_pending_email w = Some p \<and> find_by_email p w = Some vu
              \<and> map stored_role (users (snd (verify_otp env cfg now vreq w))) =
                  map stored_role
                    (users (snd (snd (reconcile env (email vu) vu
                                        (mark_used p (otp_code_data vreq) w)))))))
   \<and> (case find_or_create_user_google env lib now info w of
         (gu, w0) \<Rightarrow>
           map stored_role (take (length (users w)) (users w0)) = map stored_role (users w)
           \<and> users (snd (google_callback env lib now (Some info) w)) =
               users (snd (snd (reconcile env (email gu) gu w0))))
   \<and> map stored_role (users (snd (create env lib now a pw given g w))) =
       map stored_role (users w) @
       [case given of
          None \<Rightarrow> if is_admin_email env a then ''admin'' else ''user''
        | Some r \<Rightarrow> r]"
proof (intro conjI impI)
  assume "proceeds req w \<and> find_by_email (form_email req) w = Some u"
  then show "users (snd (register env cfg lib now req w)) =
        update_first (\<lambda>d. uid d = uid u)
          (\<lambda>d. d\<lparr>password_hash := Some (hashpw lib (form_password req)),
                 stored_role := (if is_admin_email env (form_email req) then ''admin'' else ''user'')\<rparr>)
          (users w)"
    by (simp add: register_on_existing)
next
  assume h: "case ev of
          Register r \<Rightarrow> find_by_email (form_email r) w = None \<or> \<not> proceeds r w
        | Login r \<Rightarrow> False
        | VerifyOtp r \<Rightarrow> False
        | GoogleCallback t \<Rightarrow> t = None
        | Logout \<Rightarrow> True
        | CreateAdminUser e p \<Rightarrow> True
        | SeedDatabase \<Rightarrow> True"
  show "map stored_role (take (length (users w)) (users (step env cfg lib now ev w)))
         = map stored_role (users w)"
  proof (cases ev)
    case (Register r)
    with h show ?thesis
      by (auto simp: step_def roles_register_new register_stops)
  next
    case (GoogleCallback t)
    with h show ?thesis by (simp add: step_def google_callback_users)
  next
    case Logout
    then show ?thesis by (simp add: step_def roles_logout)
  next
    case (CreateAdminUser e p)
    then show ?thesis by (simp add: step_def roles_create_admin_user)
  next
    case SeedDatabase
    then show ?thesis by (simp add: step_def roles_seed_database)
  qed (use h in simp_all)
next
  show "users (snd (login env lib lreq w)) = users w
       \<or> (\<exists>lu. find_by_email (login_email lreq) w = Some lu
              \<and> users (snd (login env lib lreq w)) = users (snd (snd (reconcile env (email lu) lu w))))"
    by (rule login_users)
next
  show "map stored_role (users (snd (verify_otp env cfg now vreq w))) = map stored_role (users w)
       \<or> (\<exists>p vu. session_pending_email w = Some p \<and> find_by_email p w = Some vu
              \<and> map stored_role (users (snd (verify_otp env cfg now vreq w))) =
                  map stored_role
                    (users (snd (snd (reconcile env (email vu) vu
                                        (mark_used p (otp_code_data vreq) w))))))"
    by (rule verify_otp_roles)
next
  show "case find_or_create_user_google env lib now info w of
         (gu, w0) \<Rightarrow>
           map stored_role (take (length (users w)) (users w0)) = map stored_role (users w)
           \<and> users (snd (google_callback env lib now (Some info) w)) =
               users (snd (snd (reconcile env (email gu) gu w0)))"
    using roles_find_or_create [of w env lib now info]
    by (simp add: case_prod_beta google_callback_users)
next
  show "map stored_role (users (snd (create env lib now a pw given g w))) =
       map stored_role (users w) @
       [case given of
          None \<Rightarrow> if is_admin_email env a then ''admin'' else ''user''
        | Some r \<Rightarrow> r]"
    by (simp add: create_fields is_admin_email_normalize)
qed

theorem stored_role_writers_witness:
  "(proceeds dave_again dave_pending
    \<and> find_by_email (form_email dave_again) dave_pending =
        Some \<lparr>uid = 3, email = ''dave@x.com'', password_hash = Some ''h:secret4'',
              stored_role = ''user'', is_verified = False, google_id = None, created_at = 7000\<rparr>)
   \<and> users (snd (register admins_dave ten_minutes toy_bcrypt 9000 dave_again dave_pending)) =
        update_first (\<lambda>d. uid d = 3)
          (\<lambda>d. d\<lparr>password_hash := Some ''h:secret5'', stored_role := ''admin''\<rparr>)
          (users dave_pending)
   \<and> find_by_email (form_email dave_registers) office = None
   \<and> map stored_role (take (length (users office))
        (users (step admins_dave ten_minutes toy_bcrypt 7000 (Register dave_registers) office)))
       = map stored_role (users office)"
proof -
  have h1: "proceeds dave_again dave_pending
    \<and> find_by_email (form_email dave_again) dave_pending =
        Some \<lparr>uid = 3, email = ''dave@x.com'', password_hash = Some ''h:secret4'',
              stored_role = ''user'', is_verified = False, google_id = None, created_at = 7000\<rparr>"
    by code_simp
  have h2: "find_by_email (form_email dave_registers) office = None" by code_simp
  have a: "is_admin_email admins_dave (form_email dave_again)" by code_simp
  have b: "hashpw toy_bcrypt (form_password dave_again) = ''h:secret5''" by code_simp
  from stored_role_writers [where req = dave_again and w = dave_pending and env = admins_dave
      and cfg = ten_minutes and lib = toy_bcrypt and now = 9000
      and u = "\<lparr>uid = 3, email = ''dave@x.com'', password_hash = Some ''h:secret4'',
              stored_role = ''user'', is_verified = False, google_id = None, created_at = 7000\<rparr>"] h1
  have c1: "users (snd (register admins_dave ten_minutes toy_bcrypt 9000 dave_again dave_pending)) =
        update_first (\<lambda>d. uid d = 3)
          (\<lambda>d. d\<lparr>password_hash := Some ''h:secret5'', stored_role := ''admin''\<rparr>)
          (users dave_pending)"
    by (simp add: a b)
  from stored_role_writers [where ev = "Register dave_registers" and w = office and env = admins_dave
      and cfg = ten_minutes and lib = toy_bcrypt and now = 7000] h2
  have c2: "map stored_role (take (length (users office))
        (users (step admins_dave ten_minutes toy_bcrypt 7000 (Register dave_registers) office)))
       = map stored_role (users office)"
    by simp
  from h1 h2 c1 c2 show ?thesis by simp
qed

section \<open>How an identity becomes verified\<close>

lemma nth_update_first:
  "distinct (map uid xs) \<Longrightarrow> i < length xs \<Longrightarrow>
   update_first (\<lambda>x. uid x = k) f xs ! i = (if uid (xs ! i) = k then f (xs ! i) else xs ! i)"
proof (induction xs arbitrary: i)
  case Nil
  then show ?case by simp
next
  case (Cons x xs)
  show ?case
  proof (cases i)
    case 0
    then show ?thesis by simp
  next
    case (Suc j)
    with Cons.prems have j: "j < length xs" and d: "distinct (map uid xs)"
      and nx: "uid x \<notin> uid ` set xs" by auto
    from j have "xs ! j \<in> set xs" by simp
    with nx have "uid (xs ! j) \<noteq> uid x" by (metis imageI)
    with Suc Cons.IH [OF d j] show ?thesis by auto
  qed
qed

lemma update_first_append_miss:
  "\<forall>x \<in> set xs. \<not> P x \<Longrightarrow> update_first P f (xs @ ys) = xs @ update_first P f ys"
  by (induction xs) auto

lemma nth_same_view:
  "map g xs = map g ys \<Longrightarrow> i < length xs \<Longrightarrow> g (xs ! i) = g (ys ! i)"
  by (metis length_map nth_map)

lemma distinct_uid_unique:
  "distinct (map uid xs) \<Longrightarrow> d \<in> set xs \<Longrightarrow> i < length xs \<Longrightarrow> uid (xs ! i) = uid d \<Longrightarrow> xs ! i = d"
  by (metis distinct_map inj_on_def nth_mem)

lemma find_by_email_doc:
  assumes "find_by_email e w = Some u"
  obtains d where "d \<in> set (users w)" "email d = lower (strip e)" "uid d = uid u"
    "is_verified d = is_verified u" "password_hash d = password_hash u" "stored_role d = stored_role u"
proof -
  from assms obtain d where d: "find (\<lambda>d. email d = lower (strip e)) (users w) = Some d" "u = User d"
    by (rule find_by_email_SomeD)
  from d(1) have "d \<in> set (users w)" "email d = lower (strip e)"
    by (auto simp: find_Some_iff)
  with d(2) that show ?thesis by (simp add: User_fields)
qed

lemma reconcile_view:
  "(\<And>d r. g (d\<lparr>stored_role := r\<rparr>) = g d) \<Longrightarrow>
   map g (users (snd (snd (reconcile env c u w)))) = map g (users w)"
  by (simp add: reconcile_cases users_update_one_def record_effect_def map_update_first_same)

lemma reconcile_length:
  "length (users (snd (snd (reconcile env c u w)))) = length (users w)"
  by (simp add: reconcile_cases users_update_one_def record_effect_def length_update_first)

text \<open>What one update by identifier does to the field \<open>g\<close> of the identity at \<open>i\<close>.\<close>

lemma nth_users_update_one:
  "distinct (map uid (users w)) \<Longrightarrow> i < length (users w) \<Longrightarrow>
   users (users_update_one k f w) ! i =
     (if uid (users w ! i) = k then f (users w ! i) else users w ! i)"
  by (simp add: users_update_one_def record_effect_def nth_update_first)

lemma verified_by_update:
  assumes dist: "distinct (map uid (users w))" and i: "i < length (users w)"
    and f: "find_by_email e w = Some u"
    and nv: "\<not> is_verified (users w ! i)"
    and v: "is_verified (users (users_update_one (uid u) g w) ! i)"
    and keep: "\<And>d. email (g d) = email d"
  shows "email (users w ! i) = lower (strip e)"
proof -
  from f obtain d where d: "d \<in> set (users w)" "email d = lower (strip e)" "uid d = uid u"
    by (rule find_by_email_doc)
  from v nv have "uid (users w ! i) = uid u"
    by (simp add: nth_users_update_one [OF dist i] split: if_splits)
  with d(3) have "users w ! i = d" using distinct_uid_unique [OF dist d(1) i] by simp
  with d(2) show ?thesis by simp
qed

lemma ids_freshD:
  "ids_fresh w \<Longrightarrow> distinct (map uid (users w))"
  "ids_fresh w \<Longrightarrow> \<forall>d \<in> set (users w). uid d \<noteq> next_id w"
  by (auto simp: ids_fresh_def list_all_iff)

lemma register_never_verifies:
  assumes i: "i < length (users (snd (register env cfg lib now req w)))"
    and v: "is_verified (users (snd (register env cfg lib now req w)) ! i)"
  shows "i < length (users w) \<and> is_verified (users w ! i)"
proof (cases "proceeds req w")
  case False
  with i v show ?thesis by (simp add: register_stops)
next
  case p: True
  show ?thesis
  proof (cases "find_by_email (form_email req) w")
    case None
    then have n: "find_by_email (lower (strip (form_email req))) w = None"
      by (simp add: find_by_email_normalize)
    have pw: "form_password req \<noteq> []"
      using p by (simp add: proceeds_def RegisterForm_validate_def DataRequired_def)
    note sn = store_registration_new [OF n, of env lib now req, unfolded n]
    from i v pw show ?thesis
      by (simp add: register_issues [OF p] None sn nth_append split: if_splits)
  next
    case (Some u)
    have m: "map is_verified (users (snd (register env cfg lib now req w))) = map is_verified (users w)"
      by (simp add: register_on_existing [OF p Some] map_update_first_same)
    have l: "length (users (snd (register env cfg lib now req w))) = length (users w)"
      by (simp add: register_again [OF p Some])
    from nth_same_view [OF m i] i v l show ?thesis by simp
  qed
qed

lemma login_never_verifies:
  assumes i: "i < length (users (snd (login env lib req w)))"
    and v: "is_verified (users (snd (login env lib req w)) ! i)"
  shows "i < length (users w) \<and> is_verified (users w ! i)"
proof -
  have m: "map is_verified (users (snd (login env lib req w))) = map is_verified (users w)"
    using login_users [of env lib req w] by (auto simp: reconcile_view)
  then have "length (users (snd (login env lib req w))) = length (users w)"
    by (rule map_eq_imp_length_eq)
  with nth_same_view [OF m i] i v show ?thesis by simp
qed


lemma verify_view:
  "(\<And>d. g (d\<lparr>is_verified := True\<rparr>) = g d) \<Longrightarrow>
   map g (users (snd (verify u w))) = map g (users w)"
  by (simp add: verify_fields map_update_first_same)

lemma verify_otp_users:
  "users (snd (verify_otp env cfg now req w)) = users w
   \<or> (\<exists>p u. session_pending_email w = Some p \<and> find_valid cfg now p (otp_code_data req) w
          \<and> find_by_email p w = Some u
          \<and> users (snd (verify_otp env cfg now req w)) =
              users (snd (verify (fst (snd (reconcile env (email u) u (mark_used p (otp_code_data req) w))))
                            (snd (snd (reconcile env (email u) u (mark_used p (otp_code_data req) w)))))))"
proof (cases "\<not> is_authenticated (current_user_of w) \<and> truthy (session_pending_email w)
    \<and> verify_submitted req \<and> OTPVerifyForm_validate req
    \<and> find_valid cfg now (the (session_pending_email w)) (otp_code_data req) w
    \<and> find_by_email (the (session_pending_email w)) w \<noteq> None")
  case True
  then obtain p u where p: "session_pending_email w = Some p" "p \<noteq> []"
    and u: "find_by_email p w = Some u"
    by (auto simp: truthy_def split: option.splits)
  from True p u have "users (snd (verify_otp env cfg now req w)) =
      users (snd (verify (fst (snd (reconcile env (email u) u (mark_used p (otp_code_data req) w))))
                    (snd (snd (reconcile env (email u) u (mark_used p (otp_code_data req) w))))))"
    by (simp add: verify_otp_success Let_def users_flash users_login_user)
  with True p u show ?thesis by simp
next
  case False
  then have "users (snd (verify_otp env cfg now req w)) = users w"
    by (auto simp: verify_otp_def Let_def users_flash users_mark_used find_by_email_mark_used
          split: option.splits)
  then show ?thesis by simp
qed

lemma verify_otp_verifies:
  assumes dist: "distinct (map uid (users w))"
    and i: "i < length (users (snd (verify_otp env cfg now req w)))"
    and v: "is_verified (users (snd (verify_otp env cfg now req w)) ! i)"
    and nv: "i < length (users w) \<Longrightarrow> \<not> is_verified (users w ! i)"
  shows "\<exists>p. session_pending_email w = Some p \<and> find_valid cfg now p (otp_code_data req) w
            \<and> email (users (snd (verify_otp env cfg now req w)) ! i) = lower (strip p)"
  using verify_otp_users [of env cfg now req w]
proof (elim disjE exE conjE)
  assume "users (snd (verify_otp env cfg now req w)) = users w"
  with i v nv show ?thesis by simp
next
  fix p u
  define w0 where "w0 = mark_used p (otp_code_data req) w"
  define u1 where "u1 = fst (snd (reconcile env (email u) u w0))"
  define w1 where "w1 = snd (snd (reconcile env (email u) u w0))"
  assume p: "session_pending_email w = Some p" and fv: "find_valid cfg now p (otp_code_data req) w"
    and f: "find_by_email p w = Some u"
    and us: "users (snd (verify_otp env cfg now req w)) =
              users (snd (verify (fst (snd (reconcile env (email u) u (mark_used p (otp_code_data req) w))))
                            (snd (snd (reconcile env (email u) u (mark_used p (otp_code_data req) w))))))"
  then have us': "users (snd (verify_otp env cfg now req w)) = users (users_update_one (uid u1) (\<lambda>d. d\<lparr>is_verified := True\<rparr>) w1)"
    by (simp add: w0_def u1_def w1_def verify_def)
  have f0: "find_by_email p w0 = Some u" using f by (simp add: w0_def find_by_email_mark_used)
  have d0: "distinct (map uid (users w0))" using dist by (simp add: w0_def users_mark_used)
  have f1: "find_by_email p w1 = Some u1"
    unfolding w1_def u1_def using f0 d0 by (rule find_by_email_reconcile)
  have d1: "distinct (map uid (users w1))"
    using d0 by (simp add: w1_def users_reconcile_uids)
  have l1: "length (users w1) = length (users w)"
    by (simp add: w1_def reconcile_length w0_def users_mark_used)
  have lw: "length (users (snd (verify_otp env cfg now req w))) = length (users w)"
    by (simp add: us' users_update_one_def record_effect_def length_update_first l1)
  have i1: "i < length (users w1)" using i lw l1 by simp
  have m1: "map is_verified (users w1) = map is_verified (users w)"
    by (simp add: w1_def reconcile_view w0_def users_mark_used)
  have nv1: "\<not> is_verified (users w1 ! i)"
    using nth_same_view [OF m1 i1] nv i lw by simp
  have e1: "email (users w1 ! i) = lower (strip p)"
    using verified_by_update [where g = "\<lambda>d. d\<lparr>is_verified := True\<rparr>", OF d1 i1 f1 nv1] v us'
    by simp
  have "map email (users (snd (verify_otp env cfg now req w))) = map email (users w1)"
    by (simp add: us' users_update_one_def record_effect_def map_update_first_same)
  from nth_same_view [OF this i] e1 p fv show ?thesis by simp
qed


lemma google_callback_verifies:
  assumes dist: "distinct (map uid (users w))"
    and i: "i < length (users (snd (google_callback env lib now (Some info) w)))"
    and v: "is_verified (users (snd (google_callback env lib now (Some info) w)) ! i)"
    and pw: "password_hash (users (snd (google_callback env lib now (Some info) w)) ! i) \<noteq> None"
    and nv: "i < length (users w) \<Longrightarrow> \<not> is_verified (users w ! i)"
  shows "i < length (users w)
         \<and> email (users (snd (google_callback env lib now (Some info) w)) ! i)
             = lower (strip (info_email info))"
proof -
  define w0 where "w0 = snd (find_or_create_user_google env lib now info w)"
  define w' where "w' = snd (google_callback env lib now (Some info) w)"
  have mv: "map is_verified (users w') = map is_verified (users w0)"
    and mp: "map password_hash (users w') = map password_hash (users w0)"
    and me: "map email (users w') = map email (users w0)"
    by (simp_all add: w'_def w0_def google_callback_users reconcile_view)
  have l: "length (users w') = length (users w0)" using mv by (rule map_eq_imp_length_eq)
  have i': "i < length (users w')" using i by (simp add: w'_def)
  have v0: "is_verified (users w0 ! i)" using nth_same_view [OF mv i'] v by (simp add: w'_def)
  have p0: "password_hash (users w0 ! i) \<noteq> None" using nth_same_view [OF mp i'] pw by (simp add: w'_def)
  have e0: "email (users w' ! i) = email (users w0 ! i)" using me i' by (rule nth_same_view)
  have "i < length (users w) \<and> email (users w0 ! i) = lower (strip (info_email info))"
  proof (cases "find_by_google_id (sub info) w")
    case (Some u)
    then have "w0 = w" by (simp add: w0_def find_or_create_user_google_def Let_def)
    with v0 nv i' l show ?thesis by simp
  next
    case None
    show ?thesis
    proof (cases "find_by_email (info_email info) w")
      case (Some u)
      with None have w0: "w0 = users_update_one (uid u) (\<lambda>d. d\<lparr>google_id := sub info, is_verified := True\<rparr>) w"
        by (simp add: w0_def find_or_create_user_google_def Let_def)
      then have l0: "length (users w0) = length (users w)"
        by (simp add: users_update_one_def record_effect_def length_update_first)
      with i' l have iw: "i < length (users w)" by simp
      have "email (users w ! i) = lower (strip (info_email info))"
        using verified_by_update [where g = "\<lambda>d. d\<lparr>google_id := sub info, is_verified := True\<rparr>",
            OF dist iw Some nv [OF iw]] v0 w0 by simp
      moreover have "map email (users w0) = map email (users w)"
        by (simp add: w0 users_update_one_def record_effect_def map_update_first_same)
      from nth_same_view [OF this] i' l have "email (users w0 ! i) = email (users w ! i)" by simp
      ultimately show ?thesis using iw by simp
    next
      case n: None
      with None have "users w0 = users (snd (create env lib now (info_email info) None None (sub info) w))"
        by (simp add: w0_def find_or_create_user_google_def Let_def)
      with v0 p0 nv i' l show ?thesis
        by (auto simp: create_fields truthy_def nth_append split: if_splits)
    qed
  qed
  with e0 show ?thesis by (simp add: w'_def)
qed

lemma create_verify_users:
  assumes "ids_fresh w"
  shows "users (snd (verify (fst (create env lib now e pw r g w)) (snd (create env lib now e pw r g w)))) =
     users w @ [\<lparr>uid = next_id w, email = lower (strip e),
                  password_hash = (if truthy pw then Some (hashpw lib (the pw)) else None),
                  stored_role = (case r of
                                   None \<Rightarrow> if is_admin_email env (lower (strip e)) then ''admin'' else ''user''
                                 | Some given \<Rightarrow> given),
                  is_verified = True, google_id = g, created_at = now\<rparr>]"
  using ids_freshD(2) [OF assms]
  by (simp add: verify_fields uid_create create_fields update_first_append_miss)

lemma create_admin_user_verifies:
  assumes fresh: "ids_fresh w"
    and i: "i < length (users (snd (create_admin_user env lib now e pw w)))"
    and v: "is_verified (users (snd (create_admin_user env lib now e pw w)) ! i)"
    and nv: "i < length (users w) \<Longrightarrow> \<not> is_verified (users w ! i)"
  shows "is_admin_email env e
         \<and> email (users (snd (create_admin_user env lib now e pw w)) ! i) = lower (strip e)"
proof (cases "is_admin_email env e")
  case False
  with i v nv show ?thesis by (simp add: create_admin_user_def)
next
  case True
  note dist = ids_freshD(1) [OF fresh]
  show ?thesis
  proof (cases "find_by_email e w")
    case None
    with True have "users (snd (create_admin_user env lib now e pw w)) =
        users (snd (verify (fst (create env lib now e (Some pw) (Some ''admin'') None w))
                       (snd (create env lib now e (Some pw) (Some ''admin'') None w))))"
      by (simp add: create_admin_user_def case_prod_beta)
    with i v nv True show ?thesis
      by (auto simp: create_verify_users [OF fresh] nth_append split: if_splits)
  next
    case (Some u)
    show ?thesis
    proof (cases "is_admin env u \<and> \<not> is_verified u")
      case False
      with Some True have "users (snd (create_admin_user env lib now e pw w)) = users w"
        by (auto simp: create_admin_user_def)
      with i v nv show ?thesis by simp
    next
      case t: True
      with Some True have us: "users (snd (create_admin_user env lib now e pw w)) =
          users (users_update_one (uid u) (\<lambda>d. d\<lparr>is_verified := True\<rparr>) w)"
        by (simp add: create_admin_user_def verify_def)
      then have l: "length (users (snd (create_admin_user env lib now e pw w))) = length (users w)"
        by (simp add: users_update_one_def record_effect_def length_update_first)
      with i have iw: "i < length (users w)" by simp
      have "email (users w ! i) = lower (strip e)"
        using verified_by_update [where g = "\<lambda>d. d\<lparr>is_verified := True\<rparr>",
            OF dist iw Some nv [OF iw]] v us by simp
      moreover have "map email (users (snd (create_admin_user env lib now e pw w))) = map email (users w)"
        by (simp add: us users_update_one_def record_effect_def map_update_first_same)
      from nth_same_view [OF this i] have
        "email (users (snd (create_admin_user env lib now e pw w)) ! i) = email (users w ! i)" .
      ultimately show ?thesis using True by simp
    qed
  qed
qed

lemma seed_database_verifies:
  assumes fresh: "ids_fresh w"
    and i: "i < length (users (seed_database env lib now w))"
    and v: "is_verified (users (seed_database env lib now w) ! i)"
    and nv: "i < length (users w) \<Longrightarrow> \<not> is_verified (users w ! i)"
  shows "email (users (seed_database env lib now w) ! i) = lower (strip ''user@example.com'')"
proof (cases "find_by_email ''user@example.com'' w")
  case None
  then have "users (seed_database env lib now w) =
      users (snd (verify (fst (create env lib now ''user@example.com'' (Some ''user123'') (Some ''user'') None w))
                     (snd (create env lib now ''user@example.com'' (Some ''user123'') (Some ''user'') None w))))"
    by (simp add: seed_database_def case_prod_beta Let_def)
  with i v nv show ?thesis
    by (auto simp: create_verify_users [OF fresh] nth_append split: if_splits)
next
  case (Some u)
  then have "users (seed_database env lib now w) = users w" by (simp add: seed_database_def Let_def)
  with i v nv show ?thesis by simp
qed

lemma seed_email: "lower (strip ''user@example.com'') = ''user@example.com''"
  by code_simp

lemma federated_creation:
  assumes "find_by_google_id (sub info) w = None" "find_by_email (info_email info) w = None"
  shows "find_or_create_user_google env lib now info w =
           create env lib now (info_email info) None None (sub info) w"
  using assms by (simp add: find_or_create_user_google_def Let_def)

lemma created_without_password:
  "is_verified (fst (create env lib now e None r g w))"
  "password_hash (fst (create env lib now e None r g w)) = None"
  by (simp_all add: create_def users_insert_one_def Let_def User_fields truthy_def)

lemma verify_otp_marks_verified:
  assumes dist: "distinct (map uid (users w))"
    and a: "\<not> is_authenticated (current_user_of w)" "session_pending_email w = Some p" "p \<noteq> []"
      "verify_submitted req" "OTPVerifyForm_validate req"
      "find_valid cfg now p (otp_code_data req) w"
    and f: "find_by_email p w = Some u"
  shows "map_option is_verified (find_by_email p (snd (verify_otp env cfg now req w))) = Some True"
proof -
  define w0 where "w0 = mark_used p (otp_code_data req) w"
  define u1 where "u1 = fst (snd (reconcile env (email u) u w0))"
  define w1 where "w1 = snd (snd (reconcile env (email u) u w0))"
  have f0: "find_by_email p w0 = Some u" using f by (simp add: w0_def find_by_email_mark_used)
  have d0: "distinct (map uid (users w0))" using dist by (simp add: w0_def users_mark_used)
  have f1: "find_by_email p w1 = Some u1"
    unfolding w1_def u1_def using f0 d0 by (rule find_by_email_reconcile)
  have d1: "distinct (map uid (users w1))"
    using d0 by (simp add: w1_def users_reconcile_uids)
  have "find_by_email p (users_update_one (uid u1) (\<lambda>d. d\<lparr>is_verified := True\<rparr>) w1)
          = Some (u1\<lparr>is_verified := True\<rparr>)"
    using f1 d1 by (rule find_by_email_update_one) (simp_all add: User_def)
  moreover have "find_by_email p (snd (verify_otp env cfg now req w)) =
      find_by_email p (users_update_one (uid u1) (\<lambda>d. d\<lparr>is_verified := True\<rparr>) w1)"
    by (simp add: verify_otp_success [OF a f] Let_def find_by_email_def flash_def login_user_def
          verify_def w0_def u1_def w1_def)
  ultimately show ?thesis by simp
qed

text \<open>
  C3, as the claim states it, fails: \<open>dave\<close> holds a credential and is unverified, and
  no code of his has been used; a federated login with his email links the account and
  marks him verified, with the credential still in place and his code still unused.
\<close>

theorem google_link_verifies_counterexample:
  "password_hash (users dave_pending ! 3) = Some ''h:secret4''
   \<and> \<not> is_verified (users dave_pending ! 3)
   \<and> is_verified (users (step admins_boss ten_minutes toy_bcrypt 9000
                           (GoogleCallback (Some dave_google)) dave_pending) ! 3)
   \<and> password_hash (users (step admins_boss ten_minutes toy_bcrypt 9000
                             (GoogleCallback (Some dave_google)) dave_pending) ! 3)
       = Some ''h:secret4''
   \<and> otps (step admins_boss ten_minutes toy_bcrypt 9000 (GoogleCallback (Some dave_google))
             dave_pending)
       = otps dave_pending"
  by code_simp

text \<open>
  C3, amended. Where identifiers are fresh, an identity that holds a credential and is
  verified after a step, and either was unverified before the step or did not exist, got
  there in one of four ways: a \<^verbatim>\<open>verify_otp\<close> with a code that is valid for the pending
  email, which is the identity's; a federated login whose email is that of the existing
  identity; the script \<^verbatim>\<open>create_admin_user\<close> for its allow-listed email; or the script
  \<^verbatim>\<open>seed_database\<close>, for the test user. Registration, login and logout never do it. An
  identity that a federated login creates is verified at once and holds no credential.
  A \<^verbatim>\<open>verify_otp\<close> with a valid code leaves the identity of the pending email verified.
\<close>

theorem verification_paths:
  "(ids_fresh w \<and> i < length (users (step env cfg lib now ev w))
      \<and> is_verified (users (step env cfg lib now ev w) ! i)
      \<and> password_hash (users (step env cfg lib now ev w) ! i) \<noteq> None
      \<and> (i < length (users w) \<longrightarrow> \<not> is_verified (users w ! i))
    \<longrightarrow> (case ev of
           VerifyOtp req \<Rightarrow>
             (\<exists>p. session_pending_email w = Some p
                  \<and> find_valid cfg now p (otp_code_data req) w
                  \<and> email (users (step env cfg lib now ev w) ! i) = lower (strip p))
         | GoogleCallback t \<Rightarrow>
             (\<exists>info. t = Some info \<and> i < length (users w)
                  \<and> email (users (step env cfg lib now ev w) ! i) = lower (strip (info_email info)))
         | CreateAdminUser e pw \<Rightarrow>
             is_admin_email env e
             \<and> email (users (step env cfg lib now ev w) ! i) = lower (strip e)
         | SeedDatabase \<Rightarrow> email (users (step env cfg lib now ev w) ! i) = ''user@example.com''
         | Register r \<Rightarrow> False
         | Login r \<Rightarrow> False
         | Logout \<Rightarrow> False))
   \<and> (find_by_google_id (sub ginfo) w = None \<and> find_by_email (info_email ginfo) w = None \<longrightarrow>
        (case find_or_create_user_google env lib now ginfo w of
           (gu, w0) \<Rightarrow>
             is_verified gu \<and> password_hash gu = None
             \<and> users w0 =
                 users w @ [\<lparr>uid = next_id w, email = lower (strip (info_email ginfo)),
                              password_hash = None,
                              stored_role = (if is_admin_email env (info_email ginfo)
                                             then ''admin'' else ''user''),
                              is_verified = True, google_id = sub ginfo, created_at = now\<rparr>])
        \<and> map is_verified (users (snd (google_callback env lib now (Some ginfo) w)))
            = map is_verified (users w) @ [True]
        \<and> map password_hash (users (snd (google_callback env lib now (Some ginfo) w)))
            = map password_hash (users w) @ [None])
   \<and> (distinct (map uid (users w)) \<and> \<not> is_authenticated (current_user_of w)
        \<and> session_pending_email w = Some p \<and> p \<noteq> []
        \<and> verify_submitted vreq \<and> OTPVerifyForm_validate vreq
        \<and> find_valid cfg now p (otp_code_data vreq) w \<and> find_by_email p w = Some vu
      \<longrightarrow> map_option is_verified (find_by_email p (snd (verify_otp env cfg now vreq w))) = Some True)"
proof (intro conjI impI)
  assume h: "ids_fresh w \<and> i < length (users (step env cfg lib now ev w))
      \<and> is_verified (users (step env cfg lib now ev w) ! i)
      \<and> password_hash (users (step env cfg lib now ev w) ! i) \<noteq> None
      \<and> (i < length (users w) \<longrightarrow> \<not> is_verified (users w ! i))"
  then have fresh: "ids_fresh w" and nv: "i < length (users w) \<Longrightarrow> \<not> is_verified (users w ! i)"
    by simp_all
  note dist = ids_freshD(1) [OF fresh]
  show "case ev of
           VerifyOtp req \<Rightarrow>
             (\<exists>p. session_pending_email w = Some p
                  \<and> find_valid cfg now p (otp_code_data req) w
                  \<and> email (users (step env cfg lib now ev w) ! i) = lower (strip p))
         | GoogleCallback t \<Rightarrow>
             (\<exists>info. t = Some info \<and> i < length (users w)
                  \<and> email (users (step env cfg lib now ev w) ! i) = lower (strip (info_email info)))
         | CreateAdminUser e pw \<Rightarrow>
             is_admin_email env e
             \<and> email (users (step env cfg lib now ev w) ! i) = lower (strip e)
         | SeedDatabase \<Rightarrow> email (users (step env cfg lib now ev w) ! i) = ''user@example.com''
         | Register r \<Rightarrow> False
         | Login r \<Rightarrow> False
         | Logout \<Rightarrow> False"
  proof (cases ev)
    case (Register r)
    with h register_never_verifies [of i env cfg lib now r w] show ?thesis
      by (simp add: step_def)
  next
    case (Login r)
    with h login_never_verifies [of i env lib r w] show ?thesis
      by (simp add: step_def)
  next
    case (VerifyOtp req)
    with h verify_otp_verifies [OF dist, of i env cfg now req] nv show ?thesis
      by (simp add: step_def)
  next
    case (GoogleCallback t)
    show ?thesis
    proof (cases t)
      case None
      with GoogleCallback h nv show ?thesis by (auto simp: step_def google_callback_users)
    next
      case (Some info)
      with GoogleCallback h google_callback_verifies [OF dist, of i env lib now info] nv
      show ?thesis by (simp add: step_def)
    qed
  next
    case Logout
    with h nv show ?thesis by (auto simp: step_def roles_logout)
  next
    case (CreateAdminUser e pw)
    with h create_admin_user_verifies [OF fresh, of i env lib now e pw] nv show ?thesis
      by (simp add: step_def)
  next
    case SeedDatabase
    with h seed_database_verifies [OF fresh, of i env lib now] nv show ?thesis
      by (simp add: step_def seed_email)
  qed
next
  assume h: "find_by_google_id (sub ginfo) w = None \<and> find_by_email (info_email ginfo) w = None"
  then have fc: "find_or_create_user_google env lib now ginfo w =
           create env lib now (info_email ginfo) None None (sub ginfo) w"
    by (simp add: federated_creation)
  show "case find_or_create_user_google env lib now ginfo w of
           (gu, w0) \<Rightarrow>
             is_verified gu \<and> password_hash gu = None
             \<and> users w0 =
                 users w @ [\<lparr>uid = next_id w, email = lower (strip (info_email ginfo)),
                              password_hash = None,
                              stored_role = (if is_admin_email env (info_email ginfo)
                                             then ''admin'' else ''user''),
                              is_verified = True, google_id = sub ginfo, created_at = now\<rparr>]"
    by (simp add: fc case_prod_beta created_without_password create_fields truthy_def
          is_admin_email_normalize)
  show "map is_verified (users (snd (google_callback env lib now (Some ginfo) w)))
            = map is_verified (users w) @ [True]"
    by (simp add: google_callback_users reconcile_view fc create_fields truthy_def)
  show "map password_hash (users (snd (google_callback env lib now (Some ginfo) w)))
            = map password_hash (users w) @ [None]"
    by (simp add: google_callback_users reconcile_view fc create_fields truthy_def)
next
  assume "distinct (map uid (users w)) \<and> \<not> is_authenticated (current_user_of w)
        \<and> session_pending_email w = Some p \<and> p \<noteq> []
        \<and> verify_submitted vreq \<and> OTPVerifyForm_validate vreq
        \<and> find_valid cfg now p (otp_code_data vreq) w \<and> find_by_email p w = Some vu"
  then show "map_option is_verified (find_by_email p (snd (verify_otp env cfg now vreq w))) = Some True"
    by (simp add: verify_otp_marks_verified)
qed


theorem verification_paths_witness:
  "(ids_fresh dave_pending
     \<and> 3 < length (users (step admins_boss ten_minutes toy_bcrypt 8000 (VerifyOtp dave_code) dave_pending))
     \<and> is_verified (users (step admins_boss ten_minutes toy_bcrypt 8000 (VerifyOtp dave_code) dave_pending) ! 3)
     \<and> password_hash (users (step admins_boss ten_minutes toy_bcrypt 8000 (VerifyOtp dave_code) dave_pending) ! 3)
         \<noteq> None
     \<and> \<not> is_verified (users dave_pending ! 3))
   \<and> (\<exists>p. session_pending_email dave_pending = Some p
          \<and> find_valid ten_minutes 8000 p (otp_code_data dave_code) dave_pending
          \<and> email (users (step admins_boss ten_minutes toy_bcrypt 8000 (VerifyOtp dave_code) dave_pending) ! 3)
              = lower (strip p))
   \<and> (find_by_google_id (sub erin_google) dave_pending = None
      \<and> find_by_email (info_email erin_google) dave_pending = None)
   \<and> map is_verified (users (snd (google_callback admins_boss toy_bcrypt 8000 (Some erin_google)
                                      dave_pending)))
       = map is_verified (users dave_pending) @ [True]
   \<and> map password_hash (users (snd (google_callback admins_boss toy_bcrypt 8000 (Some erin_google)
                                        dave_pending)))
       = map password_hash (users dave_pending) @ [None]
   \<and> (distinct (map uid (users dave_pending)) \<and> \<not> is_authenticated (current_user_of dave_pending)
      \<and> session_pending_email dave_pending = Some ''dave@x.com''
      \<and> verify_submitted dave_code \<and> OTPVerifyForm_validate dave_code
      \<and> find_valid ten_minutes 8000 ''dave@x.com'' (otp_code_data dave_code) dave_pending
      \<and> find_by_email ''dave@x.com'' dave_pending \<noteq> None)
   \<and> map_option is_verified
        (find_by_email ''dave@x.com''
           (snd (verify_otp admins_boss ten_minutes 8000 dave_code dave_pending))) = Some True"
proof -
  have h1: "ids_fresh dave_pending
     \<and> 3 < length (users (step admins_boss ten_minutes toy_bcrypt 8000 (VerifyOtp dave_code) dave_pending))
     \<and> is_verified (users (step admins_boss ten_minutes toy_bcrypt 8000 (VerifyOtp dave_code) dave_pending) ! 3)
     \<and> password_hash (users (step admins_boss ten_minutes toy_bcrypt 8000 (VerifyOtp dave_code) dave_pending) ! 3)
         \<noteq> None
     \<and> \<not> is_verified (users dave_pending ! 3)"
    by code_simp
  have h2: "find_by_google_id (sub erin_google) dave_pending = None
      \<and> find_by_email (info_email erin_google) dave_pending = None"
    by code_simp
  have h3: "distinct (map uid (users dave_pending)) \<and> \<not> is_authenticated (current_user_of dave_pending)
      \<and> session_pending_email dave_pending = Some ''dave@x.com''
      \<and> verify_submitted dave_code \<and> OTPVerifyForm_validate dave_code
      \<and> find_valid ten_minutes 8000 ''dave@x.com'' (otp_code_data dave_code) dave_pending
      \<and> find_by_email ''dave@x.com'' dave_pending \<noteq> None"
    by code_simp
  then obtain vu where vu: "find_by_email ''dave@x.com'' dave_pending = Some vu" by auto
  note t = verification_paths [where w = dave_pending and env = admins_boss and cfg = ten_minutes
      and lib = toy_bcrypt and now = 8000 and ev = "VerifyOtp dave_code" and i = 3
      and ginfo = erin_google and p = "''dave@x.com''" and vreq = dave_code and vu = vu]
  from t h1 have c1: "\<exists>p. session_pending_email dave_pending = Some p
          \<and> find_valid ten_minutes 8000 p (otp_code_data dave_code) dave_pending
          \<and> email (users (step admins_boss ten_minutes toy_bcrypt 8000 (VerifyOtp dave_code) dave_pending) ! 3)
              = lower (strip p)"
    by simp
  from t h2 have c2: "map is_verified (users (snd (google_callback admins_boss toy_bcrypt 8000 (Some erin_google)
                                      dave_pending)))
       = map is_verified (users dave_pending) @ [True]
   \<and> map password_hash (users (snd (google_callback admins_boss toy_bcrypt 8000 (Some erin_google)
                                        dave_pending)))
       = map password_hash (users dave_pending) @ [None]"
    by simp
  from t h3 vu have c3: "map_option is_verified
        (find_by_email ''dave@x.com''
           (snd (verify_otp admins_boss ten_minutes 8000 dave_code dave_pending))) = Some True"
    by simp
  from h1 h2 h3 c1 c2 c3 show ?thesis by blast
qed

end
